theory Spec2Isabelle
  imports Main
begin

text \<open>
  A shallow embedding of the parser of \<^verbatim>\<open>src/index.js\<close>, which turns the token
  stream of a template into a syntax tree, and the proofs of properties of it.  The
  model comes first: JavaScript values, tokens, the parser object and its token stream,
  and the routines of the recursive descent, each next to the part of the source it
  renders.  The notions in which the properties are stated follow, then the properties.
\<close>

section \<open>JavaScript values\<close>

text \<open>
  The parser builds its syntax tree out of plain JavaScript objects, arrays, strings,
  numbers, booleans, \<^verbatim>\<open>null\<close> and \<^verbatim>\<open>undefined\<close>.  An object is the list of its
  properties in insertion order.
\<close>

datatype jsval =
    JUndefined
  | JNull
  | JBool bool
  | JNum int
  | JStr string
  | JArr "jsval list"
  | JObj "(string \<times> jsval) list"

text \<open>JavaScript truthiness, as used by \<^verbatim>\<open>if (x)\<close>, \<^verbatim>\<open>x || y\<close> and \<^verbatim>\<open>x ? a : b\<close>.\<close>

fun truthy :: "jsval \<Rightarrow> bool" where
  "truthy JUndefined = False"
| "truthy JNull = False"
| "truthy (JBool b) = b"
| "truthy (JNum n) = (n \<noteq> 0)"
| "truthy (JStr s) = (s \<noteq> [])"
| "truthy (JArr xs) = True"
| "truthy (JObj ps) = True"

text \<open>\<^verbatim>\<open>o.k\<close>: a missing property reads as \<^verbatim>\<open>undefined\<close>.\<close>

fun get_prop :: "jsval \<Rightarrow> string \<Rightarrow> jsval" where
  "get_prop (JObj ps) k = (case map_of ps k of Some v \<Rightarrow> v | None \<Rightarrow> JUndefined)"
| "get_prop v k = JUndefined"

text \<open>\<^verbatim>\<open>o.k = v\<close>: an existing property keeps its place, a new one goes last.\<close>

fun update_prop :: "string \<Rightarrow> jsval \<Rightarrow> (string \<times> jsval) list \<Rightarrow> (string \<times> jsval) list" where
  "update_prop k v [] = [(k, v)]"
| "update_prop k v (p # ps) = (if fst p = k then (k, v) # ps else p # update_prop k v ps)"

text \<open>
  The parser only ever assigns to properties of objects it has built itself; the
  second equation is never reached from the parser.
\<close>

fun set_prop :: "jsval \<Rightarrow> string \<Rightarrow> jsval \<Rightarrow> jsval" where
  "set_prop (JObj ps) k v = JObj (update_prop k v ps)"
| "set_prop x k v = x"

text \<open>\<^verbatim>\<open>delete o.k\<close>.\<close>

fun delete_prop :: "jsval \<Rightarrow> string \<Rightarrow> jsval" where
  "delete_prop (JObj ps) k = JObj (filter (\<lambda>p. fst p \<noteq> k) ps)"
| "delete_prop x k = x"

text \<open>The own-property test \<^verbatim>\<open>k in o\<close>.\<close>

fun has_prop :: "jsval \<Rightarrow> string \<Rightarrow> bool" where
  "has_prop (JObj ps) k = (map_of ps k \<noteq> None)"
| "has_prop v k = False"

text \<open>The elements of an array, \<^verbatim>\<open>a.push(v)\<close>, \<^verbatim>\<open>a.concat(b)\<close>.\<close>

fun elems :: "jsval \<Rightarrow> jsval list" where
  "elems (JArr xs) = xs"
| "elems v = []"

definition push :: "jsval \<Rightarrow> jsval \<Rightarrow> jsval" where
  "push a v = JArr (elems a @ [v])"

definition concat_arr :: "jsval \<Rightarrow> jsval list \<Rightarrow> jsval" where
  "concat_arr a vs = JArr (elems a @ vs)"

text \<open>The string held by a value that is a string (the \<^verbatim>\<open>val\<close> of a Text node).\<close>

fun str_of :: "jsval \<Rightarrow> string" where
  "str_of (JStr s) = s"
| "str_of v = []"

text \<open>The literal \<^verbatim>\<open>{type: 'Block', nodes: []}\<close>.\<close>

definition empty_block :: jsval where
  "empty_block = JObj [(''type'', JStr ''Block''), (''nodes'', JArr [])]"

text \<open>\<^verbatim>\<open>o.block.nodes.push(v)\<close>.\<close>

definition push_block_node :: "jsval \<Rightarrow> jsval \<Rightarrow> jsval" where
  "push_block_node obj v =
     (let b = get_prop obj ''block''
      in set_prop obj ''block'' (set_prop b ''nodes'' (push (get_prop b ''nodes'') v)))"

text \<open>\<^verbatim>\<open>b.nodes.push(v)\<close> and \<^verbatim>\<open>b.nodes = b.nodes.concat(vs)\<close>.\<close>

definition push_node :: "jsval \<Rightarrow> jsval \<Rightarrow> jsval" where
  "push_node b v = set_prop b ''nodes'' (push (get_prop b ''nodes'') v)"

definition concat_nodes :: "jsval \<Rightarrow> jsval list \<Rightarrow> jsval" where
  "concat_nodes b vs = set_prop b ''nodes'' (concat_arr (get_prop b ''nodes'') vs)"

subsection \<open>Strings\<close>

text \<open>
  \<^verbatim>\<open>String.prototype.trim\<close> removes the white space and the line terminators of
  ECMAScript from both ends.  A character of the model is a code unit below 256; of
  these, the ones that \<^verbatim>\<open>trim\<close> removes are tab, line feed, vertical tab, form feed,
  carriage return, space and the no-break space U+00A0.
\<close>

definition is_space :: "char \<Rightarrow> bool" where
  "is_space c = (c = CHR '' '' \<or> c = CHR 0x09 \<or> c = CHR 0x0A \<or> c = CHR 0x0B
                 \<or> c = CHR 0x0C \<or> c = CHR 0x0D \<or> c = CHR 0xA0)"

definition trim :: "string \<Rightarrow> string" where
  "trim s = rev (dropWhile is_space (rev (dropWhile is_space s)))"

text \<open>\<^verbatim>\<open>s.match(/^ *else/)\<close>: any number of blanks, then the word \<^verbatim>\<open>else\<close>.\<close>

definition matches_else :: "string \<Rightarrow> bool" where
  "matches_else s = (take 4 (dropWhile (\<lambda>c. c = CHR '' '') s) = ''else'')"

text \<open>\<^verbatim>\<open>xs.indexOf(x) !== -1\<close>.\<close>

definition index_of_found :: "string list \<Rightarrow> string \<Rightarrow> bool" where
  "index_of_found xs x = (x \<in> set xs)"

section \<open>Tokens\<close>

text \<open>
  A token is an object made by the lexer.  The parser compares \<^verbatim>\<open>type\<close> and reads
  \<^verbatim>\<open>val\<close> as a string; it tests \<^verbatim>\<open>isIf\<close>, \<^verbatim>\<open>isElse\<close>, \<^verbatim>\<open>hasIf\<close> and
  \<^verbatim>\<open>requiresBlock\<close> for truthiness only; every other field is copied into the tree
  as it is, so it is kept as a JavaScript value.  An entry of the \<^verbatim>\<open>attrs\<close> array of
  an \<^verbatim>\<open>attrs\<close> token is \<^verbatim>\<open>{name, val, escaped}\<close>.  The \<^verbatim>\<open>attrs\<close> property of an
  \<^verbatim>\<open>include\<close> token is itself an optional \<^verbatim>\<open>attrs\<close> token, of which only the array
  is read: it is the field \<open>tok_attrsTok\<close>.
\<close>

record attr =
  attr_name :: string
  attr_val :: jsval
  attr_escaped :: jsval

record token =
  tok_type :: string
  tok_val :: string
  tok_line :: jsval
  tok_selfClosing :: jsval
  tok_attrs :: "attr list"
  tok_attrsTok :: "attr list option"
  tok_args :: jsval
  tok_buffer :: jsval
  tok_escape :: jsval
  tok_mode :: jsval
  tok_filter :: jsval
  tok_key :: jsval
  tok_code :: jsval
  tok_isIf :: bool
  tok_isElse :: bool
  tok_hasIf :: bool
  tok_requiresBlock :: bool

text \<open>A token of the given type with no other property set.\<close>

definition new_token :: "string \<Rightarrow> token" where
  "new_token ty = \<lparr> tok_type = ty, tok_val = [], tok_line = JUndefined,
      tok_selfClosing = JUndefined, tok_attrs = [], tok_attrsTok = None,
      tok_args = JUndefined, tok_buffer = JUndefined, tok_escape = JUndefined,
      tok_mode = JUndefined, tok_filter = JUndefined, tok_key = JUndefined,
      tok_code = JUndefined, tok_isIf = False, tok_isElse = False, tok_hasIf = False,
      tok_requiresBlock = False \<rparr>"

text \<open>A token with a value and a line number.\<close>

definition tokv :: "string \<Rightarrow> string \<Rightarrow> int \<Rightarrow> token" where
  "tokv ty v l = (new_token ty)\<lparr> tok_val := v, tok_line := JNum l \<rparr>"

definition js_attr :: "attr \<Rightarrow> jsval" where
  "js_attr a = JObj [(''name'', JStr (attr_name a)), (''val'', attr_val a),
                     (''escaped'', attr_escaped a)]"

section \<open>Errors and the parser object\<close>

text \<open>
  Every \<^verbatim>\<open>throw\<close> of the source is a constructor.  \<open>StreamEnd\<close> is the error of the
  token stream (\<^verbatim>\<open>Cannot read past the end of a stream\<close>); \<open>OutOfFuel\<close> is not an
  error of the program: it is the answer of the model when the recursion bound given to
  it is too small.
\<close>

datatype error =
    Expected string string
  | UnexpectedToken string
  | UnexpectedCaseToken string
  | UnexpectedTextToken string
  | UnexpectedTagToken string
  | DuplicateAttribute string
  | ElseWithoutIf
  | AnonymousBlockOutsideMixin
  | StreamEnd
  | OutOfFuel

text \<open>The two \<^verbatim>\<open>console.warn\<close> messages, with the file name and line they print.\<close>

datatype warning =
    MultipleAttributes string jsval
  | DeprecatedMixinCall string jsval

text \<open>
  The fields of \<^verbatim>\<open>Parser\<close>: the token stream, the file name and the flag
  \<^verbatim>\<open>inMixin\<close>.  \<open>inlineTags\<close> is the array that the module requires from
  \<^verbatim>\<open>./lib/inline-tags\<close>; the file is not part of the sources at hand, so the table is
  a parameter.  \<open>console\<close> collects the warnings printed so far.
\<close>

record parser =
  tokens :: "token list"
  filename :: string
  inMixin :: bool
  inlineTags :: "string list"
  console :: "warning list"

definition Parser :: "string list \<Rightarrow> token list \<Rightarrow> string \<Rightarrow> parser" where
  "Parser tags toks fn =
     \<lparr> tokens = toks, filename = fn, inMixin = False, inlineTags = tags, console = [] \<rparr>"

type_synonym 'a result = "error + ('a \<times> parser)"

fun and_then :: "'a result \<Rightarrow> ('a \<Rightarrow> parser \<Rightarrow> 'b result) \<Rightarrow> 'b result" where
  "and_then (Inl e) f = Inl e"
| "and_then (Inr (x, s)) f = f x s"

definition warn :: "warning \<Rightarrow> parser \<Rightarrow> parser" where
  "warn w s = s\<lparr> console := console s @ [w] \<rparr>"

subsection \<open>The token stream\<close>

text \<open>
  \<^verbatim>\<open>this.tokens\<close> is an object of the package \<^verbatim>\<open>token-stream\<close>, a dependency of the
  module: it wraps the array of tokens, \<^verbatim>\<open>peek()\<close> returns element 0,
  \<^verbatim>\<open>advance()\<close> shifts element 0 off the array, \<^verbatim>\<open>lookahead(i)\<close> returns element
  \<^verbatim>\<open>i\<close>, and \<^verbatim>\<open>defer(t)\<close> puts \<^verbatim>\<open>t\<close> in front.  Reading an element that is not
  there throws.  The object has no property \<^verbatim>\<open>lineno\<close>, so \<^verbatim>\<open>this.tokens.lineno\<close>
  is \<^verbatim>\<open>undefined\<close>.
\<close>

definition advance :: "parser \<Rightarrow> token result" where
  "advance s = (case tokens s of [] \<Rightarrow> Inl StreamEnd
                | t # ts \<Rightarrow> Inr (t, s\<lparr> tokens := ts \<rparr>))"

definition peek :: "parser \<Rightarrow> token result" where
  "peek s = (case tokens s of [] \<Rightarrow> Inl StreamEnd | t # ts \<Rightarrow> Inr (t, s))"

definition lookahead :: "nat \<Rightarrow> parser \<Rightarrow> token result" where
  "lookahead n s = (if length (tokens s) \<le> n then Inl StreamEnd
                    else Inr (tokens s ! n, s))"

definition defer_tok :: "token \<Rightarrow> parser \<Rightarrow> parser" where
  "defer_tok t s = s\<lparr> tokens := t # tokens s \<rparr>"

definition line :: "parser \<Rightarrow> jsval" where
  "line s = JUndefined"

definition expect :: "string \<Rightarrow> parser \<Rightarrow> token result" where
  "expect ty s =
     and_then (peek s) (\<lambda>p s.
       if tok_type p = ty then advance s else Inl (Expected ty (tok_type p)))"

text \<open>\<^verbatim>\<open>accept\<close> returns the token, or nothing when the type does not fit.\<close>

definition accept :: "string \<Rightarrow> parser \<Rightarrow> token option result" where
  "accept ty s =
     and_then (peek s) (\<lambda>p s.
       if tok_type p = ty then and_then (advance s) (\<lambda>t s. Inr (Some t, s))
       else Inr (None, s))"

text \<open>
  \<^verbatim>\<open>this.peek().hasIf = true\<close> and \<^verbatim>\<open>this.lookahead(i).hasIf = true\<close> write to the
  token object that is in the stream.
\<close>

definition set_hasIf :: "nat \<Rightarrow> parser \<Rightarrow> parser" where
  "set_hasIf i s = s\<lparr> tokens := (tokens s)[i := (tokens s ! i)\<lparr> tok_hasIf := True \<rparr>] \<rparr>"

section \<open>The parser\<close>

subsection \<open>Routines that call no other parsing routine\<close>

definition parseDoctype :: "parser \<Rightarrow> jsval result" where
  "parseDoctype s =
     and_then (expect ''doctype'' s) (\<lambda>tok s.
       Inr (JObj [(''type'', JStr ''Doctype''), (''val'', JStr (tok_val tok)),
                  (''line'', tok_line tok)], s))"

definition parseExtends :: "parser \<Rightarrow> jsval result" where
  "parseExtends s =
     and_then (expect ''extends'' s) (\<lambda>tok s.
       Inr (JObj [(''type'', JStr ''Extends''), (''path'', JStr (trim (tok_val tok)))], s))"

definition parseMixinBlock :: "parser \<Rightarrow> jsval result" where
  "parseMixinBlock s =
     and_then (expect ''mixin-block'' s) (\<lambda>block s.
       if \<not> inMixin s then Inl AnonymousBlockOutsideMixin
       else Inr (JObj [(''type'', JStr ''MixinBlock'')], s))"

text \<open>
  The end of \<^verbatim>\<open>parseCode\<close>: an \<^verbatim>\<open>if\<close> marks the \<^verbatim>\<open>else\<close> that follows it.  The
  operator \<^verbatim>\<open>&&\<close> does not look at the stream when \<^verbatim>\<open>tok.isIf\<close> is false.
\<close>

definition mark_else :: "token \<Rightarrow> parser \<Rightarrow> unit result" where
  "mark_else tok s =
     (if \<not> tok_isIf tok then Inr ((), s)
      else and_then (peek s) (\<lambda>p s.
        if tok_isElse p then Inr ((), set_hasIf 0 s)
        else if tok_type p = ''newline'' then
          and_then (lookahead 1 s) (\<lambda>q s.
            if tok_isElse q then Inr ((), set_hasIf 1 s) else Inr ((), s))
        else Inr ((), s)))"

subsection \<open>The attribute loop of \<^verbatim>\<open>tag\<close>\<close>

text \<open>The \<^verbatim>\<open>for\<close> loop over the entries of one \<^verbatim>\<open>attrs\<close> token.\<close>

fun tag_attrs_entries :: "jsval \<Rightarrow> string list \<Rightarrow> attr list \<Rightarrow> error + (jsval \<times> string list)" where
  "tag_attrs_entries tag attributeNames [] = Inr (tag, attributeNames)"
| "tag_attrs_entries tag attributeNames (a # as) =
     (if attr_name a \<noteq> ''class'' \<and> index_of_found attributeNames (attr_name a)
      then Inl (DuplicateAttribute (attr_name a))
      else tag_attrs_entries
             (set_prop tag ''attrs'' (push (get_prop tag ''attrs'')
                (JObj [(''name'', JStr (attr_name a)), (''val'', attr_val a),
                       (''escaped'', attr_escaped a)])))
             (if attr_name a \<noteq> ''class'' then attributeNames @ [attr_name a]
              else attributeNames)
             as)"

text \<open>
  The loop \<^verbatim>\<open>while (true) switch (this.peek().type)\<close>: every round but the last
  consumes the token it has looked at, so the loop is a recursion on the stream.  The
  \<^verbatim>\<open>break\<close> of the case \<^verbatim>\<open>&attributes\<close> leaves the \<^verbatim>\<open>switch\<close>, not the loop.
\<close>

fun tag_attrs_loop ::
  "string \<Rightarrow> jsval \<Rightarrow> bool \<Rightarrow> string list \<Rightarrow> warning list \<Rightarrow> token list
     \<Rightarrow> error + (jsval \<times> warning list \<times> token list)" where
  "tag_attrs_loop fn tag seenAttrs attributeNames ws [] = Inl StreamEnd"
| "tag_attrs_loop fn tag seenAttrs attributeNames ws (t # ts) =
     (if tok_type t = ''id'' \<or> tok_type t = ''class'' then
        if tok_type t = ''id'' \<and> index_of_found attributeNames ''id''
        then Inl (DuplicateAttribute ''id'')
        else tag_attrs_loop fn
               (set_prop tag ''attrs'' (push (get_prop tag ''attrs'')
                  (JObj [(''name'', JStr (tok_type t)),
                         (''val'', JStr ([CHR 0x27] @ tok_val t @ [CHR 0x27])),
                         (''escaped'', JBool False)])))
               seenAttrs
               (if tok_type t = ''id'' then attributeNames @ [''id''] else attributeNames)
               ws ts
      else if tok_type t = ''attrs'' then
        (case tag_attrs_entries
                (if truthy (tok_selfClosing t) then set_prop tag ''selfClosing'' (JBool True)
                 else tag)
                attributeNames (tok_attrs t) of
           Inl e \<Rightarrow> Inl e
         | Inr (tag', names') \<Rightarrow>
             tag_attrs_loop fn tag' True names'
               (if seenAttrs then ws @ [MultipleAttributes fn (tok_line t)] else ws) ts)
      else if tok_type t = ''&attributes'' then
        tag_attrs_loop fn
          (set_prop tag ''attributeBlocks''
             (push (get_prop tag ''attributeBlocks'') (JStr (tok_val t))))
          seenAttrs attributeNames ws ts
      else Inr (tag, ws, t # ts))"

definition tag_attrs :: "jsval \<Rightarrow> parser \<Rightarrow> jsval result" where
  "tag_attrs tag s =
     (case tag_attrs_loop (filename s) tag False [] (console s) (tokens s) of
        Inl e \<Rightarrow> Inl e
      | Inr (tag', ws, ts) \<Rightarrow> Inr (tag', s\<lparr> tokens := ts, console := ws \<rparr>))"

text \<open>\<^verbatim>\<open>while ('newline' == this.peek().type) this.advance();\<close>\<close>

fun skip_newlines_loop :: "token list \<Rightarrow> error + token list" where
  "skip_newlines_loop [] = Inl StreamEnd"
| "skip_newlines_loop (t # ts) =
     (if tok_type t = ''newline'' then skip_newlines_loop ts else Inr (t # ts))"

definition skip_newlines :: "parser \<Rightarrow> unit result" where
  "skip_newlines s =
     (case skip_newlines_loop (tokens s) of
        Inl e \<Rightarrow> Inl e
      | Inr ts \<Rightarrow> Inr ((), s\<lparr> tokens := ts \<rparr>))"

subsection \<open>The merge of raw HTML text\<close>

text \<open>
  In \<^verbatim>\<open>parseTextHtml\<close> the variable \<^verbatim>\<open>currentNode\<close> is \<^verbatim>\<open>null\<close> or refers to an
  object that has been pushed onto \<^verbatim>\<open>nodes\<close>; the model keeps the index of that
  object, and \<^verbatim>\<open>currentNode.val += x\<close> writes to \<^verbatim>\<open>nodes\<close> at this index.
\<close>

definition append_val :: "jsval \<Rightarrow> string \<Rightarrow> jsval" where
  "append_val node x = set_prop node ''val'' (JStr (str_of (get_prop node ''val'') @ x))"

definition html_text :: "token \<Rightarrow> parser \<Rightarrow> jsval list \<times> nat option \<Rightarrow> jsval list \<times> nat option" where
  "html_text text s st =
     (case st of
        (nodes, None) \<Rightarrow>
          (nodes @ [JObj [(''type'', JStr ''Text''), (''val'', JStr (tok_val text)),
                          (''filename'', JStr (filename s)), (''line'', tok_line text),
                          (''isHtml'', JBool True)]],
           Some (length nodes))
      | (nodes, Some i) \<Rightarrow>
          (nodes[i := append_val (nodes ! i) (CHR 0x0A # tok_val text)], Some i))"

text \<open>The callback of \<^verbatim>\<open>block.nodes.forEach\<close>.\<close>

definition html_merge :: "jsval list \<times> nat option \<Rightarrow> jsval \<Rightarrow> jsval list \<times> nat option" where
  "html_merge st node =
     (case st of (nodes, currentNode) \<Rightarrow>
        if truthy (get_prop node ''isHtml'') then
          (case currentNode of
             None \<Rightarrow> (nodes @ [node], Some (length nodes))
           | Some i \<Rightarrow>
               (nodes[i := append_val (nodes ! i) (CHR 0x0A # str_of (get_prop node ''val''))],
                Some i))
        else (nodes @ [node], None))"

subsection \<open>The recursive descent\<close>

text \<open>
  The routines of the parser call each other, and a \<^verbatim>\<open>while\<close> loop whose body calls
  a routine is a routine of its own (\<open>_loop\<close>).  Each routine is written down once, as
  a function of the routines \<open>r\<close> that it may call; \<open>with_fuel n\<close> below ties the
  knot: it is the parser whose calls nest at most \<open>n\<close> deep (a round of a loop counts
  as a call).
\<close>

record routines =
  parseExpr :: "parser \<Rightarrow> jsval result"
  parseText :: "bool \<Rightarrow> parser \<Rightarrow> jsval result"
  parseText_loop :: "bool \<Rightarrow> jsval list \<Rightarrow> parser \<Rightarrow> jsval result"
  parseTextHtml :: "parser \<Rightarrow> jsval list result"
  parseTextHtml_loop :: "jsval list \<times> nat option \<Rightarrow> parser \<Rightarrow> jsval list result"
  parseBlockExpansion :: "parser \<Rightarrow> jsval result"
  parseCase :: "parser \<Rightarrow> jsval result"
  parseCase_loop :: "jsval \<Rightarrow> parser \<Rightarrow> jsval result"
  parseWhen :: "parser \<Rightarrow> jsval result"
  parseDefault :: "parser \<Rightarrow> jsval result"
  parseCode :: "parser \<Rightarrow> jsval result"
  parseComment :: "parser \<Rightarrow> jsval result"
  parseFilter :: "parser \<Rightarrow> jsval result"
  parseEach :: "parser \<Rightarrow> jsval result"
  parseBlock :: "parser \<Rightarrow> jsval result"
  parseInclude :: "parser \<Rightarrow> jsval result"
  parseCall :: "parser \<Rightarrow> jsval result"
  parseMixin :: "parser \<Rightarrow> jsval result"
  parseTextBlock :: "parser \<Rightarrow> jsval result"
  parseTextBlock_loop :: "jsval \<Rightarrow> parser \<Rightarrow> jsval result"
  block :: "parser \<Rightarrow> jsval result"
  block_loop :: "jsval \<Rightarrow> parser \<Rightarrow> jsval result"
  parseInterpolation :: "parser \<Rightarrow> jsval result"
  parseTag :: "parser \<Rightarrow> jsval result"
  tag :: "jsval \<Rightarrow> parser \<Rightarrow> jsval result"

definition parseExpr_body :: "routines \<Rightarrow> parser \<Rightarrow> jsval result" where
  "parseExpr_body r s =
     and_then (peek s) (\<lambda>p s.
       if tok_type p = ''tag'' then parseTag r s
       else if tok_type p = ''mixin'' then parseMixin r s
       else if tok_type p = ''block'' then parseBlock r s
       else if tok_type p = ''mixin-block'' then parseMixinBlock s
       else if tok_type p = ''case'' then parseCase r s
       else if tok_type p = ''extends'' then parseExtends s
       else if tok_type p = ''include'' then parseInclude r s
       else if tok_type p = ''doctype'' then parseDoctype s
       else if tok_type p = ''filter'' then parseFilter r s
       else if tok_type p = ''comment'' then parseComment r s
       else if tok_type p = ''text'' \<or> tok_type p = ''start-jade-interpolation''
         then parseText r True s
       else if tok_type p = ''each'' then parseEach r s
       else if tok_type p = ''code'' then parseCode r s
       else if tok_type p = ''call'' then parseCall r s
       else if tok_type p = ''interpolation'' then parseInterpolation r s
       else if tok_type p = ''yield'' then
         and_then (advance s) (\<lambda>t s.
           Inr (set_prop empty_block ''yield'' (JBool True), s))
       else if tok_type p = ''id'' \<or> tok_type p = ''class'' then
         parseExpr r
           (defer_tok ((new_token ''tag'')\<lparr> tok_line := tok_line p, tok_val := ''div'' \<rparr>) s)
       else Inl (UnexpectedToken (tok_type p)))"

definition parseText_body :: "routines \<Rightarrow> bool \<Rightarrow> parser \<Rightarrow> jsval result" where
  "parseText_body r opt_block s = parseText_loop r opt_block [] s"

definition parseText_loop_body :: "routines \<Rightarrow> bool \<Rightarrow> jsval list \<Rightarrow> parser \<Rightarrow> jsval result" where
  "parseText_loop_body r opt_block tags s =
     and_then (peek s) (\<lambda>p s.
       if tok_type p = ''text'' \<or> tok_type p = ''start-jade-interpolation''
          \<or> (opt_block \<and> tok_type p = ''newline'') then
         if tok_type p = ''text'' then
           and_then (advance s) (\<lambda>t s.
             parseText_loop r opt_block
               (tags @ [JObj [(''type'', JStr ''Text''), (''val'', JStr (tok_val t))]]) s)
         else if tok_type p = ''newline'' then
           and_then (advance s) (\<lambda>t s.
             and_then (peek s) (\<lambda>q s.
               parseText_loop r opt_block
                 (if tok_type q = ''text''
                  then tags @ [JObj [(''type'', JStr ''Text''), (''val'', JStr [CHR 0x0A])]]
                  else tags) s))
         else
           and_then (expect ''start-jade-interpolation'' s) (\<lambda>t s.
             and_then (parseExpr r s) (\<lambda>e s.
               and_then (expect ''end-jade-interpolation'' s) (\<lambda>t s.
                 parseText_loop r opt_block (tags @ [e]) s)))
       else if length tags = 1 then Inr (hd tags, s)
       else Inr (JObj [(''type'', JStr ''Block''), (''nodes'', JArr tags)], s))"

definition parseTextHtml_body :: "routines \<Rightarrow> parser \<Rightarrow> jsval list result" where
  "parseTextHtml_body r s = parseTextHtml_loop r ([], None) s"

definition parseTextHtml_loop_body :: "routines \<Rightarrow> jsval list \<times> nat option \<Rightarrow> parser \<Rightarrow> jsval list result" where
  "parseTextHtml_loop_body r st s =
     and_then (peek s) (\<lambda>p s.
       if tok_type p = ''text-html'' then
         and_then (advance s) (\<lambda>text s.
           and_then (peek s) (\<lambda>q s.
             if tok_type q = ''indent'' then
               and_then (block r s) (\<lambda>b s.
                 parseTextHtml_loop r
                   (foldl html_merge (html_text text s st) (elems (get_prop b ''nodes''))) s)
             else if tok_type q = ''newline'' then
               and_then (advance s) (\<lambda>t s. parseTextHtml_loop r (html_text text s st) s)
             else parseTextHtml_loop r (html_text text s st) s))
       else Inr (fst st, s))"

definition parseBlockExpansion_body :: "routines \<Rightarrow> parser \<Rightarrow> jsval result" where
  "parseBlockExpansion_body r s =
     and_then (peek s) (\<lambda>p s.
       if tok_type p = '':'' then
         and_then (advance s) (\<lambda>t s.
           and_then (parseExpr r s) (\<lambda>e s.
             Inr (JObj [(''type'', JStr ''Block''), (''nodes'', JArr [e])], s)))
       else block r s)"

definition parseCase_body :: "routines \<Rightarrow> parser \<Rightarrow> jsval result" where
  "parseCase_body r s =
     and_then (expect ''case'' s) (\<lambda>tok s.
       and_then (expect ''indent'' s) (\<lambda>t s.
         and_then (parseCase_loop r
                     (set_prop empty_block ''filename'' (JStr (filename s))) s) (\<lambda>b s.
           and_then (expect ''outdent'' s) (\<lambda>t s.
             Inr (JObj [(''type'', JStr ''Case''), (''expr'', JStr (tok_val tok)),
                        (''line'', tok_line tok), (''block'', b)], s)))))"

definition parseCase_loop_body :: "routines \<Rightarrow> jsval \<Rightarrow> parser \<Rightarrow> jsval result" where
  "parseCase_loop_body r b s =
     and_then (peek s) (\<lambda>p s.
       if tok_type p \<noteq> ''outdent'' then
         if tok_type p = ''newline'' then
           and_then (advance s) (\<lambda>t s. parseCase_loop r b s)
         else if tok_type p = ''when'' then
           and_then (parseWhen r s) (\<lambda>w s. parseCase_loop r (push_node b w) s)
         else if tok_type p = ''default'' then
           and_then (parseDefault r s) (\<lambda>d s. parseCase_loop r (push_node b d) s)
         else Inl (UnexpectedCaseToken (tok_type p))
       else Inr (b, s))"

definition parseWhen_body :: "routines \<Rightarrow> parser \<Rightarrow> jsval result" where
  "parseWhen_body r s =
     and_then (expect ''when'' s) (\<lambda>tok s.
       and_then (peek s) (\<lambda>p s.
         if tok_type p \<noteq> ''newline'' then
           and_then (parseBlockExpansion r s) (\<lambda>b s.
             Inr (JObj [(''type'', JStr ''When''), (''expr'', JStr (tok_val tok)),
                        (''block'', b), (''debug'', JBool False)], s))
         else
           Inr (JObj [(''type'', JStr ''When''), (''expr'', JStr (tok_val tok)),
                      (''debug'', JBool False)], s)))"

definition parseDefault_body :: "routines \<Rightarrow> parser \<Rightarrow> jsval result" where
  "parseDefault_body r s =
     and_then (expect ''default'' s) (\<lambda>tok s.
       and_then (parseBlockExpansion r s) (\<lambda>b s.
         Inr (JObj [(''type'', JStr ''When''), (''expr'', JStr ''default''),
                    (''block'', b), (''debug'', JBool False)], s)))"

definition parseCode_body :: "routines \<Rightarrow> parser \<Rightarrow> jsval result" where
  "parseCode_body r s =
     and_then (expect ''code'' s) (\<lambda>tok s.
       let node0 = JObj [(''type'', JStr ''Code''), (''val'', JStr (tok_val tok)),
                         (''buffer'', tok_buffer tok), (''escape'', tok_escape tok)];
           node1 = (if matches_else (tok_val tok) then set_prop node0 ''debug'' (JBool False)
                    else node0);
           node2 = set_prop node1 ''line'' (line s)
       in
       if tok_isElse tok \<and> \<not> tok_hasIf tok then Inl ElseWithoutIf
       else
         and_then (peek s) (\<lambda>p s.
           and_then (if tok_type p = ''indent''
                     then and_then (block r s) (\<lambda>b s. Inr (set_prop node2 ''block'' b, s))
                     else Inr (node2, s)) (\<lambda>node3 s.
             let node4 = (if tok_requiresBlock tok \<and> tok_type p \<noteq> ''indent''
                          then set_prop node3 ''block'' empty_block else node3)
             in and_then (mark_else tok s) (\<lambda>u s. Inr (node4, s)))))"

definition parseComment_body :: "routines \<Rightarrow> parser \<Rightarrow> jsval result" where
  "parseComment_body r s =
     and_then (expect ''comment'' s) (\<lambda>tok s.
       and_then (parseTextBlock r s) (\<lambda>b s.
         if truthy b then
           Inr (JObj [(''type'', JStr ''BlockComment''), (''val'', JStr (tok_val tok)),
                      (''block'', b), (''buffer'', tok_buffer tok),
                      (''line'', tok_line tok)], s)
         else
           Inr (JObj [(''type'', JStr ''Comment''), (''val'', JStr (tok_val tok)),
                      (''buffer'', tok_buffer tok), (''line'', tok_line tok)], s)))"

definition parseFilter_body :: "routines \<Rightarrow> parser \<Rightarrow> jsval result" where
  "parseFilter_body r s =
     and_then (expect ''filter'' s) (\<lambda>tok s.
       and_then (accept ''attrs'' s) (\<lambda>attrs s.
         and_then (parseTextBlock r s) (\<lambda>b s.
           Inr (JObj [(''type'', JStr ''Filter''), (''name'', JStr (tok_val tok)),
                      (''block'', if truthy b then b else empty_block),
                      (''attrs'', case attrs of
                                    Some a \<Rightarrow> JArr (map js_attr (tok_attrs a))
                                  | None \<Rightarrow> JArr []),
                      (''line'', tok_line tok)], s))))"

definition parseEach_body :: "routines \<Rightarrow> parser \<Rightarrow> jsval result" where
  "parseEach_body r s =
     and_then (expect ''each'' s) (\<lambda>tok s.
       and_then (block r s) (\<lambda>b s.
         let node = JObj [(''type'', JStr ''Each''), (''obj'', tok_code tok),
                          (''val'', JStr (tok_val tok)), (''key'', tok_key tok),
                          (''block'', b), (''line'', tok_line tok)]
         in and_then (peek s) (\<lambda>p s.
              if tok_type p = ''code'' \<and> tok_val p = ''else'' then
                and_then (advance s) (\<lambda>t s.
                  and_then (block r s) (\<lambda>alt s.
                    Inr (set_prop node ''alternative'' alt, s)))
              else Inr (node, s))))"

definition parseBlock_body :: "routines \<Rightarrow> parser \<Rightarrow> jsval result" where
  "parseBlock_body r s =
     and_then (expect ''block'' s) (\<lambda>tok s.
       and_then (peek s) (\<lambda>p s.
         and_then (if tok_type p = ''indent'' then block r s else Inr (empty_block, s))
           (\<lambda>node s.
             Inr (set_prop (set_prop (set_prop (set_prop node
                    ''type'' (JStr ''NamedBlock''))
                    ''name'' (JStr (trim (tok_val tok))))
                    ''mode'' (tok_mode tok))
                    ''line'' (tok_line tok), s))))"

definition parseInclude_body :: "routines \<Rightarrow> parser \<Rightarrow> jsval result" where
  "parseInclude_body r s =
     and_then (expect ''include'' s) (\<lambda>tok s.
       and_then (peek s) (\<lambda>p s.
         and_then (if tok_type p = ''indent'' then block r s else Inr (empty_block, s))
           (\<lambda>b s.
             Inr (JObj [(''type'', JStr ''Include''), (''path'', JStr (trim (tok_val tok))),
                        (''filter'', tok_filter tok),
                        (''attrs'', case tok_attrsTok tok of
                                      Some as \<Rightarrow> JArr (map js_attr as)
                                    | None \<Rightarrow> JArr []),
                        (''block'', b)], s))))"

definition parseCall_body :: "routines \<Rightarrow> parser \<Rightarrow> jsval result" where
  "parseCall_body r s =
     and_then (expect ''call'' s) (\<lambda>tok s.
       and_then (tag r
                  (JObj [(''type'', JStr ''Mixin''), (''name'', JStr (tok_val tok)),
                         (''args'', tok_args tok), (''block'', empty_block),
                         (''call'', JBool True), (''attrs'', JArr []),
                         (''attributeBlocks'', JArr [])]) s) (\<lambda>mixin s.
         let mixin1 = (if truthy (get_prop mixin ''code'')
                       then delete_prop (push_block_node mixin (get_prop mixin ''code'')) ''code''
                       else mixin)
         in Inr (if length (elems (get_prop (get_prop mixin1 ''block'') ''nodes'')) = 0
                 then set_prop mixin1 ''block'' JNull else mixin1, s)))"

definition parseMixin_body :: "routines \<Rightarrow> parser \<Rightarrow> jsval result" where
  "parseMixin_body r s =
     and_then (expect ''mixin'' s) (\<lambda>tok s.
       and_then (peek s) (\<lambda>p s.
         if tok_type p = ''indent'' then
           and_then (block r (s\<lparr> inMixin := True \<rparr>)) (\<lambda>b s.
             Inr (JObj [(''type'', JStr ''Mixin''), (''name'', JStr (tok_val tok)),
                        (''args'', tok_args tok), (''block'', b), (''call'', JBool False)],
                  s\<lparr> inMixin := False \<rparr>))
         else
           Inr (JObj [(''type'', JStr ''Mixin''), (''name'', JStr (tok_val tok)),
                      (''args'', tok_args tok), (''block'', JNull), (''call'', JBool True)],
                warn (DeprecatedMixinCall (filename s) (tok_line tok)) s)))"

definition parseTextBlock_body :: "routines \<Rightarrow> parser \<Rightarrow> jsval result" where
  "parseTextBlock_body r s =
     and_then (peek s) (\<lambda>p s.
       if tok_type p \<noteq> ''start-pipeless-text'' then Inr (JUndefined, s)
       else
         and_then (advance s) (\<lambda>t s.
           and_then (parseTextBlock_loop r empty_block s) (\<lambda>b s.
             and_then (advance s) (\<lambda>t s. Inr (b, s)))))"

definition parseTextBlock_loop_body :: "routines \<Rightarrow> jsval \<Rightarrow> parser \<Rightarrow> jsval result" where
  "parseTextBlock_loop_body r b s =
     and_then (peek s) (\<lambda>p s.
       if tok_type p \<noteq> ''end-pipeless-text'' then
         and_then (advance s) (\<lambda>tok s.
           if tok_type tok = ''text'' then
             parseTextBlock_loop r
               (push_node b (JObj [(''type'', JStr ''Text''), (''val'', JStr (tok_val tok))])) s
           else if tok_type tok = ''newline'' then
             parseTextBlock_loop r
               (push_node b (JObj [(''type'', JStr ''Text''), (''val'', JStr [CHR 0x0A])])) s
           else if tok_type tok = ''start-jade-interpolation'' then
             and_then (parseExpr r s) (\<lambda>e s.
               and_then (expect ''end-jade-interpolation'' s) (\<lambda>t s.
                 parseTextBlock_loop r (push_node b e) s))
           else Inl (UnexpectedTextToken (tok_type tok)))
       else Inr (b, s))"

definition block_body :: "routines \<Rightarrow> parser \<Rightarrow> jsval result" where
  "block_body r s =
     and_then (expect ''indent'' s) (\<lambda>t s'.
       and_then (block_loop r
                   (set_prop (set_prop empty_block ''line'' (line s))
                      ''filename'' (JStr (filename s))) s') (\<lambda>b s.
         and_then (expect ''outdent'' s) (\<lambda>t s. Inr (b, s))))"

definition block_loop_body :: "routines \<Rightarrow> jsval \<Rightarrow> parser \<Rightarrow> jsval result" where
  "block_loop_body r b s =
     and_then (peek s) (\<lambda>p s.
       if tok_type p \<noteq> ''outdent'' then
         if tok_type p = ''newline'' then
           and_then (advance s) (\<lambda>t s. block_loop r b s)
         else if tok_type p = ''text-html'' then
           and_then (parseTextHtml r s) (\<lambda>ns s. block_loop r (concat_nodes b ns) s)
         else
           and_then (parseExpr r s) (\<lambda>expr s.
             block_loop r
               (push_node b (set_prop expr ''filename'' (JStr (filename s)))) s)
       else Inr (b, s))"

definition parseInterpolation_body :: "routines \<Rightarrow> parser \<Rightarrow> jsval result" where
  "parseInterpolation_body r s =
     and_then (advance s) (\<lambda>tok s.
       tag r (JObj [(''type'', JStr ''Tag''), (''name'', JStr (tok_val tok)),
                    (''selfClosing'', tok_selfClosing tok), (''block'', empty_block),
                    (''attrs'', JArr []), (''attributeBlocks'', JArr []),
                    (''buffer'', JBool True), (''isInline'', JBool False)]) s)"

definition parseTag_body :: "routines \<Rightarrow> parser \<Rightarrow> jsval result" where
  "parseTag_body r s =
     and_then (advance s) (\<lambda>tok s.
       tag r (JObj [(''type'', JStr ''Tag''), (''name'', JStr (tok_val tok)),
                    (''selfClosing'', tok_selfClosing tok), (''block'', empty_block),
                    (''attrs'', JArr []), (''attributeBlocks'', JArr []),
                    (''isInline'', JBool (index_of_found (inlineTags s) (tok_val tok)))]) s)"

text \<open>The parts of \<^verbatim>\<open>tag\<close>, in the order of the source.\<close>

text \<open>\<^verbatim>\<open>// check immediate '.'\<close>\<close>

definition tag_dot :: "jsval \<Rightarrow> parser \<Rightarrow> jsval result" where
  "tag_dot tg s =
     and_then (peek s) (\<lambda>p s.
       if tok_type p = ''dot''
       then and_then (advance s) (\<lambda>t s. Inr (set_prop tg ''textOnly'' (JBool True), s))
       else Inr (tg, s))"

text \<open>\<^verbatim>\<open>// (text | code | ':')?\<close>\<close>

definition tag_inline :: "routines \<Rightarrow> jsval \<Rightarrow> parser \<Rightarrow> jsval result" where
  "tag_inline r tg s =
     and_then (peek s) (\<lambda>p s.
       if tok_type p = ''text'' then
         and_then (parseText r False s) (\<lambda>t s. Inr (push_block_node tg t, s))
       else if tok_type p = ''code'' then
         and_then (parseCode r s) (\<lambda>c s. Inr (set_prop tg ''code'' c, s))
       else if tok_type p = '':'' then
         and_then (advance s) (\<lambda>t s.
           and_then (parseExpr r s) (\<lambda>e s.
             Inr (set_prop tg ''block''
                    (JObj [(''type'', JStr ''Block''), (''nodes'', JArr [e])]), s)))
       else if tok_type p = ''newline'' \<or> tok_type p = ''indent''
               \<or> tok_type p = ''outdent'' \<or> tok_type p = ''eos''
               \<or> tok_type p = ''start-pipeless-text'' then Inr (tg, s)
       else Inl (UnexpectedTagToken (tok_type p)))"

text \<open>\<^verbatim>\<open>// block?\<close>\<close>

definition tag_block :: "routines \<Rightarrow> jsval \<Rightarrow> parser \<Rightarrow> jsval result" where
  "tag_block r tg s =
     (if truthy (get_prop tg ''textOnly'') then
        and_then (parseTextBlock r s) (\<lambda>b s.
          Inr (set_prop tg ''block'' (if truthy b then b else empty_block), s))
      else
        and_then (peek s) (\<lambda>p s.
          if tok_type p = ''indent'' then
            and_then (block r s) (\<lambda>b s.
              Inr (foldl push_block_node tg (elems (get_prop b ''nodes'')), s))
          else Inr (tg, s)))"

definition tag_body :: "routines \<Rightarrow> jsval \<Rightarrow> parser \<Rightarrow> jsval result" where
  "tag_body r tg s =
     and_then (tag_attrs (set_prop tg ''line'' (line s)) s) (\<lambda>tg1 s.
       and_then (tag_dot tg1 s) (\<lambda>tg2 s.
         and_then (tag_inline r tg2 s) (\<lambda>tg3 s.
           and_then (skip_newlines s) (\<lambda>u s.
             tag_block r tg3 s))))"

text \<open>
  A routine that may make no call at all answers \<open>OutOfFuel\<close>; with one more level
  of calls allowed, each routine is its body over the routines of the level below.
\<close>

primrec with_fuel :: "nat \<Rightarrow> routines" where
  "with_fuel 0 = \<lparr>
     parseExpr = (\<lambda>s. Inl OutOfFuel),
     parseText = (\<lambda>opt_block s. Inl OutOfFuel),
     parseText_loop = (\<lambda>opt_block tags s. Inl OutOfFuel),
     parseTextHtml = (\<lambda>s. Inl OutOfFuel),
     parseTextHtml_loop = (\<lambda>st s. Inl OutOfFuel),
     parseBlockExpansion = (\<lambda>s. Inl OutOfFuel),
     parseCase = (\<lambda>s. Inl OutOfFuel),
     parseCase_loop = (\<lambda>b s. Inl OutOfFuel),
     parseWhen = (\<lambda>s. Inl OutOfFuel),
     parseDefault = (\<lambda>s. Inl OutOfFuel),
     parseCode = (\<lambda>s. Inl OutOfFuel),
     parseComment = (\<lambda>s. Inl OutOfFuel),
     parseFilter = (\<lambda>s. Inl OutOfFuel),
     parseEach = (\<lambda>s. Inl OutOfFuel),
     parseBlock = (\<lambda>s. Inl OutOfFuel),
     parseInclude = (\<lambda>s. Inl OutOfFuel),
     parseCall = (\<lambda>s. Inl OutOfFuel),
     parseMixin = (\<lambda>s. Inl OutOfFuel),
     parseTextBlock = (\<lambda>s. Inl OutOfFuel),
     parseTextBlock_loop = (\<lambda>b s. Inl OutOfFuel),
     block = (\<lambda>s. Inl OutOfFuel),
     block_loop = (\<lambda>b s. Inl OutOfFuel),
     parseInterpolation = (\<lambda>s. Inl OutOfFuel),
     parseTag = (\<lambda>s. Inl OutOfFuel),
     tag = (\<lambda>tg s. Inl OutOfFuel) \<rparr>"
| "with_fuel (Suc n) = \<lparr>
     parseExpr = parseExpr_body (with_fuel n),
     parseText = parseText_body (with_fuel n),
     parseText_loop = parseText_loop_body (with_fuel n),
     parseTextHtml = parseTextHtml_body (with_fuel n),
     parseTextHtml_loop = parseTextHtml_loop_body (with_fuel n),
     parseBlockExpansion = parseBlockExpansion_body (with_fuel n),
     parseCase = parseCase_body (with_fuel n),
     parseCase_loop = parseCase_loop_body (with_fuel n),
     parseWhen = parseWhen_body (with_fuel n),
     parseDefault = parseDefault_body (with_fuel n),
     parseCode = parseCode_body (with_fuel n),
     parseComment = parseComment_body (with_fuel n),
     parseFilter = parseFilter_body (with_fuel n),
     parseEach = parseEach_body (with_fuel n),
     parseBlock = parseBlock_body (with_fuel n),
     parseInclude = parseInclude_body (with_fuel n),
     parseCall = parseCall_body (with_fuel n),
     parseMixin = parseMixin_body (with_fuel n),
     parseTextBlock = parseTextBlock_body (with_fuel n),
     parseTextBlock_loop = parseTextBlock_loop_body (with_fuel n),
     block = block_body (with_fuel n),
     block_loop = block_loop_body (with_fuel n),
     parseInterpolation = parseInterpolation_body (with_fuel n),
     parseTag = parseTag_body (with_fuel n),
     tag = tag_body (with_fuel n) \<rparr>"

subsection \<open>The top level\<close>

text \<open>The loop of \<^verbatim>\<open>Parser.prototype.parse\<close>; one round costs one unit of fuel.\<close>

fun parse_loop :: "nat \<Rightarrow> jsval \<Rightarrow> parser \<Rightarrow> jsval result" where
  "parse_loop 0 b s = Inl OutOfFuel"
| "parse_loop (Suc n) b s =
     and_then (peek s) (\<lambda>next s.
       if tok_type next \<noteq> ''eos'' then
         if tok_type next = ''newline'' then
           and_then (advance s) (\<lambda>t s. parse_loop n b s)
         else if tok_type next = ''text-html'' then
           and_then (parseTextHtml (with_fuel n) s) (\<lambda>ns s.
             parse_loop n (concat_nodes b ns) s)
         else
           and_then (parseExpr (with_fuel n) s) (\<lambda>expr s.
             parse_loop n
               (push_node b
                  (set_prop
                     (set_prop expr ''filename''
                        (if truthy (get_prop expr ''filename'') then get_prop expr ''filename''
                         else JStr (filename s)))
                     ''line'' (tok_line next))) s)
       else Inr (b, s))"

definition Parser_parse :: "nat \<Rightarrow> parser \<Rightarrow> jsval result" where
  "Parser_parse n s =
     parse_loop n
       (set_prop (set_prop empty_block ''line'' (JNum 0)) ''filename'' (JStr (filename s))) s"

text \<open>
  \<^verbatim>\<open>JSON.parse(JSON.stringify(v))\<close> on the values above: a property whose value is
  \<^verbatim>\<open>undefined\<close> is left out, an element of an array that is \<^verbatim>\<open>undefined\<close>
  becomes \<^verbatim>\<open>null\<close>.
\<close>

primrec json_clone :: "jsval \<Rightarrow> jsval" where
  "json_clone JUndefined = JUndefined"
| "json_clone JNull = JNull"
| "json_clone (JBool b) = JBool b"
| "json_clone (JNum n) = JNum n"
| "json_clone (JStr x) = JStr x"
| "json_clone (JArr xs) =
     JArr (map (\<lambda>v. if v = JUndefined then JNull else v) (map json_clone xs))"
| "json_clone (JObj ps) =
     JObj (filter (\<lambda>p. snd p \<noteq> JUndefined) (map (map_prod id json_clone) ps))"

text \<open>
  The exported function \<^verbatim>\<open>parse(tokens, filename)\<close>.  The first argument is the bound
  on the depth of calls, the second the table of inline tags.
\<close>

definition parse :: "nat \<Rightarrow> string list \<Rightarrow> token list \<Rightarrow> string \<Rightarrow> error + jsval" where
  "parse n tags toks fn =
     (case Parser_parse n (Parser tags toks fn) of
        Inl e \<Rightarrow> Inl e
      | Inr (ast, s) \<Rightarrow> Inr (json_clone ast))"

section \<open>Notions used to state the properties\<close>

text \<open>
  The values of a run of tokens joined by line feeds, as \<^verbatim>\<open>Array.prototype.join\<close>
  with the separator \<^verbatim>\<open>'\n'\<close> would join them: the wording of the specification
  for the value of a merged raw HTML text.
\<close>

fun join_newline :: "string list \<Rightarrow> string" where
  "join_newline [] = []"
| "join_newline [x] = x"
| "join_newline (x # y # ys) = x @ CHR 0x0A # join_newline (y # ys)"

text \<open>The Text node that \<^verbatim>\<open>parseTextHtml\<close> makes, with value, file name and line.\<close>

definition html_node :: "string \<Rightarrow> string \<Rightarrow> jsval \<Rightarrow> jsval" where
  "html_node v fn l = JObj [(''type'', JStr ''Text''), (''val'', JStr v),
     (''filename'', JStr fn), (''line'', l), (''isHtml'', JBool True)]"

text \<open>
  The attribute names that count for uniqueness on one tag, over the attribute tokens
  (\<^verbatim>\<open>id\<close>, \<^verbatim>\<open>class\<close>, \<^verbatim>\<open>attrs\<close>, \<^verbatim>\<open>&attributes\<close>) at the front of a stream, in the
  words of the specification: \<^verbatim>\<open>id\<close> for the shorthand, and the names other than
  \<^verbatim>\<open>class\<close> of the entries of the \<^verbatim>\<open>attrs\<close> tokens.
\<close>

fun attribute_names :: "token list \<Rightarrow> string list" where
  "attribute_names [] = []"
| "attribute_names (t # ts) =
     (if tok_type t = ''id'' then ''id'' # attribute_names ts
      else if tok_type t = ''class'' then attribute_names ts
      else if tok_type t = ''attrs'' then
        filter (\<lambda>x. x \<noteq> ''class'') (map attr_name (tok_attrs t)) @ attribute_names ts
      else if tok_type t = ''&attributes'' then attribute_names ts
      else [])"

text \<open>
  A value that JSON can represent: no \<^verbatim>\<open>undefined\<close> anywhere in it.  (The values of
  \<open>jsval\<close> are finite trees and have no constructor for a function, so a value of the
  model holds no function and no cycle.)
\<close>

fun json_plain :: "jsval \<Rightarrow> bool" where
  "json_plain JUndefined = False"
| "json_plain (JArr xs) = (\<forall>x \<in> set xs. json_plain x)"
| "json_plain (JObj ps) = (\<forall>p \<in> set ps. json_plain (snd p))"
| "json_plain v = True"

text \<open>The root of a tree: a Block with the given nodes, line 0 and the file name.\<close>

definition root_block :: "string \<Rightarrow> jsval list \<Rightarrow> jsval" where
  "root_block fn ns = JObj [(''type'', JStr ''Block''), (''nodes'', JArr ns),
     (''line'', JNum 0), (''filename'', JStr fn)]"

text \<open>
  The nodes of a tree: the object itself and, below it, what its properties
  \<^verbatim>\<open>nodes\<close>, \<^verbatim>\<open>block\<close>, \<^verbatim>\<open>code\<close> and \<^verbatim>\<open>alternative\<close> hold: these are the
  properties in which the parser stores nodes.
\<close>

definition node_key :: "string \<Rightarrow> bool" where
  "node_key k = (k = ''nodes'' \<or> k = ''block'' \<or> k = ''code'' \<or> k = ''alternative'')"

primrec nodes_of :: "jsval \<Rightarrow> jsval list" where
  "nodes_of JUndefined = []"
| "nodes_of JNull = []"
| "nodes_of (JBool b) = []"
| "nodes_of (JNum n) = []"
| "nodes_of (JStr x) = []"
| "nodes_of (JArr xs) = concat (map nodes_of xs)"
| "nodes_of (JObj ps) =
     JObj ps # concat (map (\<lambda>p. if node_key (fst p) then snd p else [])
                          (map (map_prod id nodes_of) ps))"

text \<open>A node carries a \<^verbatim>\<open>type\<close> that is a string; a tree all of whose nodes do.\<close>

fun is_str :: "jsval \<Rightarrow> bool" where
  "is_str (JStr x) = True"
| "is_str v = False"

definition typed :: "jsval \<Rightarrow> bool" where
  "typed x = is_str (get_prop x ''type'')"

definition all_typed :: "jsval \<Rightarrow> bool" where
  "all_typed v = (\<forall>x \<in> set (nodes_of v). typed x)"

text \<open>
  What a routine returns, when it returns, is a tree all of whose nodes carry a type;
  and the same of every routine of a level, given that the trees passed to it are so.
\<close>

definition returns_typed :: "jsval result \<Rightarrow> bool" where
  "returns_typed m = (\<forall>v s. m = Inr (v, s) \<longrightarrow> all_typed v)"

definition returns_typed_list :: "jsval list result \<Rightarrow> bool" where
  "returns_typed_list m = (\<forall>vs s. m = Inr (vs, s) \<longrightarrow> (\<forall>v \<in> set vs. all_typed v))"

definition routines_typed :: "routines \<Rightarrow> bool" where
  "routines_typed r \<longleftrightarrow>
     (\<forall>s. returns_typed (parseExpr r s)) \<and>
     (\<forall>ob s. returns_typed (parseText r ob s)) \<and>
     (\<forall>ob tags s. (\<forall>v \<in> set tags. all_typed v) \<longrightarrow> returns_typed (parseText_loop r ob tags s)) \<and>
     (\<forall>s. returns_typed_list (parseTextHtml r s)) \<and>
     (\<forall>st s. (\<forall>v \<in> set (fst st). all_typed v) \<longrightarrow> returns_typed_list (parseTextHtml_loop r st s)) \<and>
     (\<forall>s. returns_typed (parseBlockExpansion r s)) \<and>
     (\<forall>s. returns_typed (parseCase r s)) \<and>
     (\<forall>b s. (all_typed b) \<longrightarrow> returns_typed (parseCase_loop r b s)) \<and>
     (\<forall>s. returns_typed (parseWhen r s)) \<and>
     (\<forall>s. returns_typed (parseDefault r s)) \<and>
     (\<forall>s. returns_typed (parseCode r s)) \<and>
     (\<forall>s. returns_typed (parseComment r s)) \<and>
     (\<forall>s. returns_typed (parseFilter r s)) \<and>
     (\<forall>s. returns_typed (parseEach r s)) \<and>
     (\<forall>s. returns_typed (parseBlock r s)) \<and>
     (\<forall>s. returns_typed (parseInclude r s)) \<and>
     (\<forall>s. returns_typed (parseCall r s)) \<and>
     (\<forall>s. returns_typed (parseMixin r s)) \<and>
     (\<forall>s. returns_typed (parseTextBlock r s)) \<and>
     (\<forall>b s. (all_typed b) \<longrightarrow> returns_typed (parseTextBlock_loop r b s)) \<and>
     (\<forall>s. returns_typed (block r s)) \<and>
     (\<forall>b s. (all_typed b) \<longrightarrow> returns_typed (block_loop r b s)) \<and>
     (\<forall>s. returns_typed (parseInterpolation r s)) \<and>
     (\<forall>s. returns_typed (parseTag r s)) \<and>
     (\<forall>tg s. (all_typed tg) \<longrightarrow> returns_typed (tag r tg s))"

text \<open>
  A routine comes to an end when its answer is not that the bound on the calls was too
  small: \<open>finishes m Q\<close> says this of the answer \<open>m\<close>, and that \<open>Q\<close> holds of
  the value and the parser that \<open>m\<close> returns, when it returns.
\<close>

definition finishes :: "'a result \<Rightarrow> ('a \<Rightarrow> parser \<Rightarrow> bool) \<Rightarrow> bool" where
  "finishes m Q = (case m of Inl e \<Rightarrow> e \<noteq> OutOfFuel | Inr (v, s) \<Rightarrow> Q v s)"

text \<open>
  What is left of a stream: the stream of the second parser is shorter than, or no
  longer than, the stream of the first; it is no longer, and shorter when the first
  stream starts with a token of one of the given types.
\<close>

definition shorter :: "parser \<Rightarrow> parser \<Rightarrow> bool" where
  "shorter s s' \<longleftrightarrow> length (tokens s') < length (tokens s)"

definition no_longer :: "parser \<Rightarrow> parser \<Rightarrow> bool" where
  "no_longer s s' \<longleftrightarrow> length (tokens s') \<le> length (tokens s)"

definition shorter_at :: "string list \<Rightarrow> parser \<Rightarrow> parser \<Rightarrow> bool" where
  "shorter_at tys s s' \<longleftrightarrow>
     length (tokens s') \<le> length (tokens s)
     \<and> (case tokens s of [] \<Rightarrow> True
        | t # ts \<Rightarrow> if tok_type t \<in> set tys then length (tokens s') \<le> length ts else True)"

text \<open>
  \<^verbatim>\<open>parseExpr\<close> puts a \<^verbatim>\<open>tag\<close> token in front of an \<^verbatim>\<open>id\<close> or \<^verbatim>\<open>class\<close>
  token and calls itself; the stream is then longer by one, and \<^verbatim>\<open>tag\<close> takes the
  \<^verbatim>\<open>id\<close> or \<^verbatim>\<open>class\<close> token off again.  \<open>rest_tag\<close> bounds the length of the
  stream that \<^verbatim>\<open>tag\<close> leaves, \<open>rest_expr\<close> of the stream that \<^verbatim>\<open>parseExpr\<close>
  leaves, and \<open>fuel_expr\<close> is the depth of calls that \<^verbatim>\<open>parseExpr\<close> is given: 8 for
  each token and 6 more, less when the stream starts with a \<^verbatim>\<open>tag\<close> token.
\<close>

fun rest_tag :: "token list \<Rightarrow> nat" where
  "rest_tag [] = 0"
| "rest_tag (t # ts) =
     (if tok_type t = ''id'' \<or> tok_type t = ''class'' then length ts else Suc (length ts))"

fun rest_expr :: "token list \<Rightarrow> nat" where
  "rest_expr [] = 0"
| "rest_expr (t # ts) = (if tok_type t = ''tag'' then rest_tag ts else length ts)"

fun fuel_expr :: "token list \<Rightarrow> nat" where
  "fuel_expr [] = 1"
| "fuel_expr (t # ts) =
     (if tok_type t = ''tag'' then 8 * length ts + 5 else 8 * length ts + 14)"

text \<open>
  The routines of a level come to an end on every stream for which the level is deep
  enough, and leave a stream that is no longer, or shorter, than the one they were
  given.
\<close>

definition routines_finish :: "nat \<Rightarrow> routines \<Rightarrow> bool" where
  "routines_finish n r \<longleftrightarrow>
     (\<forall>s. fuel_expr (tokens s) \<le> n \<longrightarrow>
        finishes (parseExpr r s)
          (\<lambda>v s'. shorter s s' \<and> length (tokens s') \<le> rest_expr (tokens s))) \<and>
     (\<forall>ob s. 8 * length (tokens s) + 2 \<le> n \<longrightarrow>
        finishes (parseText r ob s)
          (\<lambda>v. shorter_at [''text'', ''start-jade-interpolation''] s)) \<and>
     (\<forall>ob tags s. 8 * length (tokens s) + 1 \<le> n \<longrightarrow>
        finishes (parseText_loop r ob tags s)
          (\<lambda>v. shorter_at [''text'', ''start-jade-interpolation''] s)) \<and>
     (\<forall>s. 8 * length (tokens s) + 2 \<le> n \<longrightarrow>
        finishes (parseTextHtml r s)
          (\<lambda>v. shorter_at [''text-html''] s)) \<and>
     (\<forall>st s. 8 * length (tokens s) + 1 \<le> n \<longrightarrow>
        finishes (parseTextHtml_loop r st s)
          (\<lambda>v. shorter_at [''text-html''] s)) \<and>
     (\<forall>s. 8 * length (tokens s) + 2 \<le> n \<longrightarrow>
        finishes (parseBlockExpansion r s)
          (\<lambda>v. no_longer s)) \<and>
     (\<forall>s. 8 * length (tokens s) + 1 \<le> n \<longrightarrow>
        finishes (parseCase r s)
          (\<lambda>v. shorter s)) \<and>
     (\<forall>b s. 8 * length (tokens s) + 2 \<le> n \<longrightarrow>
        finishes (parseCase_loop r b s)
          (\<lambda>v. no_longer s)) \<and>
     (\<forall>s. 8 * length (tokens s) + 1 \<le> n \<longrightarrow>
        finishes (parseWhen r s)
          (\<lambda>v. shorter s)) \<and>
     (\<forall>s. 8 * length (tokens s) + 1 \<le> n \<longrightarrow>
        finishes (parseDefault r s)
          (\<lambda>v. shorter s)) \<and>
     (\<forall>s. 8 * length (tokens s) + 1 \<le> n \<longrightarrow>
        finishes (parseCode r s)
          (\<lambda>v. shorter s)) \<and>
     (\<forall>s. 8 * length (tokens s) + 1 \<le> n \<longrightarrow>
        finishes (parseComment r s)
          (\<lambda>v. shorter s)) \<and>
     (\<forall>s. 8 * length (tokens s) + 1 \<le> n \<longrightarrow>
        finishes (parseFilter r s)
          (\<lambda>v. shorter s)) \<and>
     (\<forall>s. 8 * length (tokens s) + 1 \<le> n \<longrightarrow>
        finishes (parseEach r s)
          (\<lambda>v. shorter s)) \<and>
     (\<forall>s. 8 * length (tokens s) + 1 \<le> n \<longrightarrow>
        finishes (parseBlock r s)
          (\<lambda>v. shorter s)) \<and>
     (\<forall>s. 8 * length (tokens s) + 1 \<le> n \<longrightarrow>
        finishes (parseInclude r s)
          (\<lambda>v. shorter s)) \<and>
     (\<forall>s. 8 * length (tokens s) + 1 \<le> n \<longrightarrow>
        finishes (parseCall r s)
          (\<lambda>v. shorter s)) \<and>
     (\<forall>s. 8 * length (tokens s) + 1 \<le> n \<longrightarrow>
        finishes (parseMixin r s)
          (\<lambda>v. shorter s)) \<and>
     (\<forall>s. 8 * length (tokens s) + 1 \<le> n \<longrightarrow>
        finishes (parseTextBlock r s)
          (\<lambda>v. no_longer s)) \<and>
     (\<forall>b s. 8 * length (tokens s) + 1 \<le> n \<longrightarrow>
        finishes (parseTextBlock_loop r b s)
          (\<lambda>v. no_longer s)) \<and>
     (\<forall>s. 8 * length (tokens s) + 1 \<le> n \<longrightarrow>
        finishes (block r s)
          (\<lambda>v. shorter s)) \<and>
     (\<forall>b s. 8 * length (tokens s) + 7 \<le> n \<longrightarrow>
        finishes (block_loop r b s)
          (\<lambda>v. no_longer s)) \<and>
     (\<forall>s. 8 * length (tokens s) + 1 \<le> n \<longrightarrow>
        finishes (parseInterpolation r s)
          (\<lambda>v. shorter s)) \<and>
     (\<forall>s. 8 * (length (tokens s) - 1) + 4 \<le> n \<longrightarrow>
        finishes (parseTag r s)
          (\<lambda>v s'. shorter s s' \<and> length (tokens s') \<le> rest_tag (tl (tokens s)))) \<and>
     (\<forall>tg s. 8 * length (tokens s) + 3 \<le> n \<longrightarrow>
        finishes (tag r tg s)
          (\<lambda>v s'. no_longer s s' \<and> length (tokens s') \<le> rest_tag (tokens s)))"

text \<open>
  The answer \<open>m'\<close> of a deeper level is the answer \<open>m\<close>, unless \<open>m\<close> is that
  the bound was too small; and the same of every routine of two levels.
\<close>

definition stable :: "'a result \<Rightarrow> 'a result \<Rightarrow> bool" where
  "stable m m' \<longleftrightarrow> (m \<noteq> Inl OutOfFuel \<longrightarrow> m' = m)"

definition routines_le :: "routines \<Rightarrow> routines \<Rightarrow> bool" where
  "routines_le r r' \<longleftrightarrow>
     (\<forall>s. stable (parseExpr r s) (parseExpr r' s)) \<and>
     (\<forall>ob s. stable (parseText r ob s) (parseText r' ob s)) \<and>
     (\<forall>ob tags s. stable (parseText_loop r ob tags s) (parseText_loop r' ob tags s)) \<and>
     (\<forall>s. stable (parseTextHtml r s) (parseTextHtml r' s)) \<and>
     (\<forall>st s. stable (parseTextHtml_loop r st s) (parseTextHtml_loop r' st s)) \<and>
     (\<forall>s. stable (parseBlockExpansion r s) (parseBlockExpansion r' s)) \<and>
     (\<forall>s. stable (parseCase r s) (parseCase r' s)) \<and>
     (\<forall>b s. stable (parseCase_loop r b s) (parseCase_loop r' b s)) \<and>
     (\<forall>s. stable (parseWhen r s) (parseWhen r' s)) \<and>
     (\<forall>s. stable (parseDefault r s) (parseDefault r' s)) \<and>
     (\<forall>s. stable (parseCode r s) (parseCode r' s)) \<and>
     (\<forall>s. stable (parseComment r s) (parseComment r' s)) \<and>
     (\<forall>s. stable (parseFilter r s) (parseFilter r' s)) \<and>
     (\<forall>s. stable (parseEach r s) (parseEach r' s)) \<and>
     (\<forall>s. stable (parseBlock r s) (parseBlock r' s)) \<and>
     (\<forall>s. stable (parseInclude r s) (parseInclude r' s)) \<and>
     (\<forall>s. stable (parseCall r s) (parseCall r' s)) \<and>
     (\<forall>s. stable (parseMixin r s) (parseMixin r' s)) \<and>
     (\<forall>s. stable (parseTextBlock r s) (parseTextBlock r' s)) \<and>
     (\<forall>b s. stable (parseTextBlock_loop r b s) (parseTextBlock_loop r' b s)) \<and>
     (\<forall>s. stable (block r s) (block r' s)) \<and>
     (\<forall>b s. stable (block_loop r b s) (block_loop r' b s)) \<and>
     (\<forall>s. stable (parseInterpolation r s) (parseInterpolation r' s)) \<and>
     (\<forall>s. stable (parseTag r s) (parseTag r' s)) \<and>
     (\<forall>tg s. stable (tag r tg s) (tag r' tg s))"

section \<open>Unfolding one level of calls\<close>

lemma with_fuel_Suc:
  "parseExpr (with_fuel (Suc n)) = parseExpr_body (with_fuel n)"
  "parseText (with_fuel (Suc n)) = parseText_body (with_fuel n)"
  "parseText_loop (with_fuel (Suc n)) = parseText_loop_body (with_fuel n)"
  "parseTextHtml (with_fuel (Suc n)) = parseTextHtml_body (with_fuel n)"
  "parseTextHtml_loop (with_fuel (Suc n)) = parseTextHtml_loop_body (with_fuel n)"
  "parseBlockExpansion (with_fuel (Suc n)) = parseBlockExpansion_body (with_fuel n)"
  "parseCase (with_fuel (Suc n)) = parseCase_body (with_fuel n)"
  "parseCase_loop (with_fuel (Suc n)) = parseCase_loop_body (with_fuel n)"
  "parseWhen (with_fuel (Suc n)) = parseWhen_body (with_fuel n)"
  "parseDefault (with_fuel (Suc n)) = parseDefault_body (with_fuel n)"
  "parseCode (with_fuel (Suc n)) = parseCode_body (with_fuel n)"
  "parseComment (with_fuel (Suc n)) = parseComment_body (with_fuel n)"
  "parseFilter (with_fuel (Suc n)) = parseFilter_body (with_fuel n)"
  "parseEach (with_fuel (Suc n)) = parseEach_body (with_fuel n)"
  "parseBlock (with_fuel (Suc n)) = parseBlock_body (with_fuel n)"
  "parseInclude (with_fuel (Suc n)) = parseInclude_body (with_fuel n)"
  "parseCall (with_fuel (Suc n)) = parseCall_body (with_fuel n)"
  "parseMixin (with_fuel (Suc n)) = parseMixin_body (with_fuel n)"
  "parseTextBlock (with_fuel (Suc n)) = parseTextBlock_body (with_fuel n)"
  "parseTextBlock_loop (with_fuel (Suc n)) = parseTextBlock_loop_body (with_fuel n)"
  "block (with_fuel (Suc n)) = block_body (with_fuel n)"
  "block_loop (with_fuel (Suc n)) = block_loop_body (with_fuel n)"
  "parseInterpolation (with_fuel (Suc n)) = parseInterpolation_body (with_fuel n)"
  "parseTag (with_fuel (Suc n)) = parseTag_body (with_fuel n)"
  "tag (with_fuel (Suc n)) = tag_body (with_fuel n)"
  by simp_all

lemma with_fuel_0:
  "parseExpr (with_fuel 0) = (\<lambda>s. Inl OutOfFuel)"
  "parseText (with_fuel 0) = (\<lambda>x s. Inl OutOfFuel)"
  "parseText_loop (with_fuel 0) = (\<lambda>x y s. Inl OutOfFuel)"
  "parseTextHtml (with_fuel 0) = (\<lambda>s. Inl OutOfFuel)"
  "parseTextHtml_loop (with_fuel 0) = (\<lambda>t s. Inl OutOfFuel)"
  "parseBlockExpansion (with_fuel 0) = (\<lambda>s. Inl OutOfFuel)"
  "parseCase (with_fuel 0) = (\<lambda>s. Inl OutOfFuel)"
  "parseCase_loop (with_fuel 0) = (\<lambda>b s. Inl OutOfFuel)"
  "parseWhen (with_fuel 0) = (\<lambda>s. Inl OutOfFuel)"
  "parseDefault (with_fuel 0) = (\<lambda>s. Inl OutOfFuel)"
  "parseCode (with_fuel 0) = (\<lambda>s. Inl OutOfFuel)"
  "parseComment (with_fuel 0) = (\<lambda>s. Inl OutOfFuel)"
  "parseFilter (with_fuel 0) = (\<lambda>s. Inl OutOfFuel)"
  "parseEach (with_fuel 0) = (\<lambda>s. Inl OutOfFuel)"
  "parseBlock (with_fuel 0) = (\<lambda>s. Inl OutOfFuel)"
  "parseInclude (with_fuel 0) = (\<lambda>s. Inl OutOfFuel)"
  "parseCall (with_fuel 0) = (\<lambda>s. Inl OutOfFuel)"
  "parseMixin (with_fuel 0) = (\<lambda>s. Inl OutOfFuel)"
  "parseTextBlock (with_fuel 0) = (\<lambda>s. Inl OutOfFuel)"
  "parseTextBlock_loop (with_fuel 0) = (\<lambda>b s. Inl OutOfFuel)"
  "block (with_fuel 0) = (\<lambda>s. Inl OutOfFuel)"
  "block_loop (with_fuel 0) = (\<lambda>b s. Inl OutOfFuel)"
  "parseInterpolation (with_fuel 0) = (\<lambda>s. Inl OutOfFuel)"
  "parseTag (with_fuel 0) = (\<lambda>s. Inl OutOfFuel)"
  "tag (with_fuel 0) = (\<lambda>t s. Inl OutOfFuel)"
  by simp_all

declare with_fuel.simps [simp del]

text \<open>The definitions that the simplifier unfolds to run the parser on a given stream.\<close>

lemmas parser_defs =
  parse_def Parser_parse_def Parser_def numeral_eq_Suc with_fuel_Suc with_fuel_0
  parseExpr_body_def parseText_body_def parseText_loop_body_def parseTextHtml_body_def
  parseTextHtml_loop_body_def parseBlockExpansion_body_def parseCase_body_def
  parseCase_loop_body_def parseWhen_body_def parseDefault_body_def parseCode_body_def
  parseComment_body_def parseFilter_body_def parseEach_body_def parseBlock_body_def
  parseInclude_body_def parseCall_body_def parseMixin_body_def parseTextBlock_body_def
  parseTextBlock_loop_body_def block_body_def block_loop_body_def
  parseInterpolation_body_def parseTag_body_def tag_body_def tag_dot_def tag_inline_def
  tag_block_def
  parseMixinBlock_def parseDoctype_def parseExtends_def mark_else_def tag_attrs_def
  skip_newlines_def peek_def advance_def expect_def accept_def lookahead_def set_hasIf_def
  defer_tok_def warn_def html_text_def html_merge_def append_val_def concat_nodes_def
  concat_arr_def push_node_def push_block_node_def push_def empty_block_def tokv_def
  new_token_def line_def index_of_found_def matches_else_def trim_def is_space_def
  js_attr_def

lemma and_then_Inr:
  "and_then m f = Inr y \<longleftrightarrow> (\<exists>x s. m = Inr (x, s) \<and> f x s = Inr y)"
  by (cases m) auto

lemma and_then_Inl:
  "and_then m f = Inl e \<longleftrightarrow> m = Inl e \<or> (\<exists>x s. m = Inr (x, s) \<and> f x s = Inl e)"
  by (cases m) auto

section \<open>Anonymous blocks and the scope of a mixin\<close>

lemma parseMixinBlock_outside:
  "tokens s = t # ts \<Longrightarrow> tok_type t = ''mixin-block'' \<Longrightarrow> \<not> inMixin s
   \<Longrightarrow> parseMixinBlock s = Inl AnonymousBlockOutsideMixin"
  by (simp add: parseMixinBlock_def expect_def peek_def advance_def)

lemma parseMixinBlock_inside:
  "tokens s = t # ts \<Longrightarrow> tok_type t = ''mixin-block'' \<Longrightarrow> inMixin s
   \<Longrightarrow> parseMixinBlock s = Inr (JObj [(''type'', JStr ''MixinBlock'')], s\<lparr> tokens := ts \<rparr>)"
  by (simp add: parseMixinBlock_def expect_def peek_def advance_def)

lemma mixin_block_top_level:
  "parse (n + 2) tags [new_token ''mixin-block''] fn = Inl AnonymousBlockOutsideMixin"
  by (simp add: parser_defs)

lemma mixin_block_in_mixin:
  "parse (n + 6) tags
     [tokv ''mixin'' ''m'' 1, new_token ''indent'', new_token ''mixin-block'',
      new_token ''outdent'', new_token ''eos''] fn =
   Inr (JObj [(''type'', JStr ''Block''),
         (''nodes'', JArr [JObj [(''type'', JStr ''Mixin''), (''name'', JStr ''m''),
              (''block'', JObj [(''type'', JStr ''Block''),
                 (''nodes'', JArr [JObj [(''type'', JStr ''MixinBlock''),
                                         (''filename'', JStr fn)]]),
                 (''filename'', JStr fn)]),
              (''call'', JBool False), (''filename'', JStr fn), (''line'', JNum 1)]]),
         (''line'', JNum 0), (''filename'', JStr fn)])"
  by (simp add: parser_defs)

text \<open>
  Claim C4.  When the next token is a \<^verbatim>\<open>mixin-block\<close> token, \<^verbatim>\<open>parseMixinBlock\<close>
  raises the error \<open>AnonymousBlockOutsideMixin\<close> if the flag \<^verbatim>\<open>inMixin\<close> is unset,
  and returns the placeholder \<^verbatim>\<open>{type: 'MixinBlock'}\<close>, consuming the token, if the
  flag is set.  The stream \<^verbatim>\<open>[mixin-block]\<close> at top level fails with that error, and
  the stream \<^verbatim>\<open>[mixin 'm', indent, mixin-block, outdent]\<close>, closed by the lexer's
  \<^verbatim>\<open>eos\<close> token, parses into a Mixin node whose body holds the placeholder; both
  for every bound on the depth of calls from 2 and 6 on.
\<close>

theorem mixin_block_scope:
  "(tokens s = t # ts \<and> tok_type t = ''mixin-block'' \<and> \<not> inMixin s
      \<longrightarrow> parseMixinBlock s = Inl AnonymousBlockOutsideMixin)
   \<and> (tokens s = t # ts \<and> tok_type t = ''mixin-block'' \<and> inMixin s
      \<longrightarrow> parseMixinBlock s
            = Inr (JObj [(''type'', JStr ''MixinBlock'')], s\<lparr> tokens := ts \<rparr>))
   \<and> parse (n + 2) tags [new_token ''mixin-block''] fn = Inl AnonymousBlockOutsideMixin
   \<and> parse (n + 6) tags
        [tokv ''mixin'' ''m'' 1, new_token ''indent'', new_token ''mixin-block'',
         new_token ''outdent'', new_token ''eos''] fn =
       Inr (JObj [(''type'', JStr ''Block''),
         (''nodes'', JArr [JObj [(''type'', JStr ''Mixin''), (''name'', JStr ''m''),
              (''block'', JObj [(''type'', JStr ''Block''),
                 (''nodes'', JArr [JObj [(''type'', JStr ''MixinBlock''),
                                         (''filename'', JStr fn)]]),
                 (''filename'', JStr fn)]),
              (''call'', JBool False), (''filename'', JStr fn), (''line'', JNum 1)]]),
         (''line'', JNum 0), (''filename'', JStr fn)])"
  using parseMixinBlock_outside [of s t ts] parseMixinBlock_inside [of s t ts]
    mixin_block_top_level [of n tags fn] mixin_block_in_mixin [of n tags fn]
  by blast

theorem mixin_block_scope_witness:
  "parseMixinBlock (Parser [] [new_token ''mixin-block'', new_token ''eos''] ''a.jade'')
     = Inl AnonymousBlockOutsideMixin
   \<and> parseMixinBlock
       ((Parser [] [new_token ''mixin-block'', new_token ''eos''] ''a.jade'')
          \<lparr> inMixin := True \<rparr>)
     = Inr (JObj [(''type'', JStr ''MixinBlock'')],
            (Parser [] [new_token ''eos''] ''a.jade'')\<lparr> inMixin := True \<rparr>)
   \<and> parse 2 [] [new_token ''mixin-block''] ''a.jade'' = Inl AnonymousBlockOutsideMixin"
proof -
  let ?s = "Parser [] [new_token ''mixin-block'', new_token ''eos''] ''a.jade''"
  have out: "tokens ?s = new_token ''mixin-block'' # [new_token ''eos'']
      \<and> tok_type (new_token ''mixin-block'') = ''mixin-block'' \<and> \<not> inMixin ?s"
    by (simp add: Parser_def new_token_def)
  have ins: "tokens (?s\<lparr> inMixin := True \<rparr>) = new_token ''mixin-block'' # [new_token ''eos'']
      \<and> tok_type (new_token ''mixin-block'') = ''mixin-block'' \<and> inMixin (?s\<lparr> inMixin := True \<rparr>)"
    by (simp add: Parser_def new_token_def)
  have upd: "?s\<lparr> inMixin := True, tokens := [new_token ''eos''] \<rparr>
      = (Parser [] [new_token ''eos''] ''a.jade'')\<lparr> inMixin := True \<rparr>"
    by (simp add: Parser_def)
  note a = mixin_block_scope [where s = ?s and t = "new_token ''mixin-block''"
      and ts = "[new_token ''eos'']" and n = 0 and tags = "[]" and fn = "''a.jade''"]
  note b = mixin_block_scope [where s = "?s\<lparr> inMixin := True \<rparr>"
      and t = "new_token ''mixin-block''"
      and ts = "[new_token ''eos'']" and n = 0 and tags = "[]" and fn = "''a.jade''"]
  from a out have 1: "parseMixinBlock ?s = Inl AnonymousBlockOutsideMixin" by blast
  from b ins upd have 2: "parseMixinBlock (?s\<lparr> inMixin := True \<rparr>)
     = Inr (JObj [(''type'', JStr ''MixinBlock'')],
            (Parser [] [new_token ''eos''] ''a.jade'')\<lparr> inMixin := True \<rparr>)"
    by metis
  from a have 3: "parse 2 [] [new_token ''mixin-block''] ''a.jade'' = Inl AnonymousBlockOutsideMixin"
    by (simp add: eval_nat_numeral)
  from 1 2 3 show ?thesis by blast
qed

lemma parseMixin_definition:
  "tokens s = t # i # ts \<Longrightarrow> tok_type t = ''mixin'' \<Longrightarrow> tok_type i = ''indent'' \<Longrightarrow>
   parseMixin (with_fuel (Suc n)) s =
     and_then (block (with_fuel n) (s\<lparr> tokens := i # ts, inMixin := True \<rparr>)) (\<lambda>b s'.
       Inr (JObj [(''type'', JStr ''Mixin''), (''name'', JStr (tok_val t)),
                  (''args'', tok_args t), (''block'', b), (''call'', JBool False)],
            s'\<lparr> inMixin := False \<rparr>))"
  by (simp add: with_fuel_Suc parseMixin_body_def expect_def peek_def advance_def)

lemma parseMixin_clears_flag:
  assumes "tokens s = t # i # ts" "tok_type t = ''mixin''" "tok_type i = ''indent''"
    and "parseMixin (with_fuel k) s = Inr (m, s')"
  shows "\<not> inMixin s'"
proof (cases k)
  case 0
  with assms show ?thesis by (simp add: with_fuel_0)
next
  case (Suc n)
  with assms show ?thesis
    by (auto simp: parseMixin_definition and_then_Inr)
qed

lemma nested_mixin_definition:
  "parse (n + 12) tags
     [tokv ''mixin'' ''outer'' 1, new_token ''indent'',
        tokv ''mixin'' ''inner'' 2, new_token ''indent'', tokv ''tag'' ''p'' 3,
        new_token ''outdent'',
        new_token ''mixin-block'',
      new_token ''outdent'', new_token ''eos''] fn = Inl AnonymousBlockOutsideMixin"
  by (simp add: parser_defs)

text \<open>
  Claim C5.  The scope of a mixin is the one flag \<^verbatim>\<open>inMixin\<close> of the parser.  A mixin
  definition (a \<^verbatim>\<open>mixin\<close> token followed by \<^verbatim>\<open>indent\<close>) parses its body with the
  flag set, whatever the flag was before, and whenever it returns the flag is unset,
  also when the definition stands inside the body of another one.  So in
  \<^verbatim>\<open>[mixin 'outer', indent, mixin 'inner', indent, tag 'p', outdent, mixin-block,
  outdent, eos]\<close> the \<^verbatim>\<open>mixin-block\<close> token of the outer body, which comes after the
  inner definition, raises \<open>AnonymousBlockOutsideMixin\<close>.
\<close>

theorem inMixin_single_flag:
  "(tokens s = t # i # ts \<and> tok_type t = ''mixin'' \<and> tok_type i = ''indent'' \<longrightarrow>
      parseMixin (with_fuel (Suc k)) s =
        and_then (block (with_fuel k) (s\<lparr> tokens := i # ts, inMixin := True \<rparr>)) (\<lambda>b s'.
          Inr (JObj [(''type'', JStr ''Mixin''), (''name'', JStr (tok_val t)),
                     (''args'', tok_args t), (''block'', b), (''call'', JBool False)],
               s'\<lparr> inMixin := False \<rparr>)))
   \<and> (tokens s = t # i # ts \<and> tok_type t = ''mixin'' \<and> tok_type i = ''indent''
        \<and> parseMixin (with_fuel k) s = Inr (m, s') \<longrightarrow> \<not> inMixin s')
   \<and> parse (n + 12) tags
        [tokv ''mixin'' ''outer'' 1, new_token ''indent'',
           tokv ''mixin'' ''inner'' 2, new_token ''indent'', tokv ''tag'' ''p'' 3,
           new_token ''outdent'',
           new_token ''mixin-block'',
         new_token ''outdent'', new_token ''eos''] fn = Inl AnonymousBlockOutsideMixin"
  using parseMixin_definition [of s t i ts k] parseMixin_clears_flag [of s t i ts k m s']
    nested_mixin_definition [of n tags fn]
  by blast

theorem inMixin_single_flag_witness:
  "parseMixin (with_fuel 3)
     ((Parser [] [tokv ''mixin'' ''inner'' 2, new_token ''indent'', new_token ''outdent'',
                  new_token ''mixin-block''] ''a.jade'')\<lparr> inMixin := True \<rparr>)
   = Inr (JObj [(''type'', JStr ''Mixin''), (''name'', JStr ''inner''),
                (''args'', JUndefined),
                (''block'', JObj [(''type'', JStr ''Block''), (''nodes'', JArr []),
                                  (''line'', JUndefined), (''filename'', JStr ''a.jade'')]),
                (''call'', JBool False)],
          Parser [] [new_token ''mixin-block''] ''a.jade'')
   \<and> \<not> inMixin (Parser [] [new_token ''mixin-block''] ''a.jade'')
   \<and> parse 12 []
        [tokv ''mixin'' ''outer'' 1, new_token ''indent'',
           tokv ''mixin'' ''inner'' 2, new_token ''indent'', tokv ''tag'' ''p'' 3,
           new_token ''outdent'',
           new_token ''mixin-block'',
         new_token ''outdent'', new_token ''eos''] ''a.jade'' = Inl AnonymousBlockOutsideMixin"
proof -
  let ?s = "(Parser [] [tokv ''mixin'' ''inner'' 2, new_token ''indent'', new_token ''outdent'',
                  new_token ''mixin-block''] ''a.jade'')\<lparr> inMixin := True \<rparr>"
  let ?s' = "Parser [] [new_token ''mixin-block''] ''a.jade''"
  let ?m = "JObj [(''type'', JStr ''Mixin''), (''name'', JStr ''inner''),
                (''args'', JUndefined),
                (''block'', JObj [(''type'', JStr ''Block''), (''nodes'', JArr []),
                                  (''line'', JUndefined), (''filename'', JStr ''a.jade'')]),
                (''call'', JBool False)]"
  note a = inMixin_single_flag [where s = ?s and t = "tokv ''mixin'' ''inner'' 2"
      and i = "new_token ''indent''" and ts = "[new_token ''outdent'', new_token ''mixin-block'']"
      and k = 2 and m = ?m and s' = ?s' and n = 0 and tags = "[]" and fn = "''a.jade''"]
  have pre: "tokens ?s = tokv ''mixin'' ''inner'' 2 # new_token ''indent''
                # [new_token ''outdent'', new_token ''mixin-block'']
      \<and> tok_type (tokv ''mixin'' ''inner'' 2) = ''mixin''
      \<and> tok_type (new_token ''indent'') = ''indent''"
    by (simp add: Parser_def tokv_def new_token_def)
  have blk: "block (with_fuel 2)
       (?s\<lparr> tokens := new_token ''indent'' # [new_token ''outdent'', new_token ''mixin-block''],
             inMixin := True \<rparr>)
     = Inr (JObj [(''type'', JStr ''Block''), (''nodes'', JArr []),
                  (''line'', JUndefined), (''filename'', JStr ''a.jade'')],
            ?s'\<lparr> inMixin := True \<rparr>)"
    by (simp add: parser_defs)
  from a pre blk have 1: "parseMixin (with_fuel 3) ?s = Inr (?m, ?s')"
    by (simp add: eval_nat_numeral tokv_def new_token_def Parser_def)
  from a have 2: "tokens ?s = tokv ''mixin'' ''inner'' 2 # new_token ''indent''
                # [new_token ''outdent'', new_token ''mixin-block'']
      \<and> tok_type (tokv ''mixin'' ''inner'' 2) = ''mixin''
      \<and> tok_type (new_token ''indent'') = ''indent''
      \<and> parseMixin (with_fuel 2) ?s = Inr (?m, ?s') \<longrightarrow> \<not> inMixin ?s'"
    by blast
  have 3: "\<not> inMixin ?s'" by (simp add: Parser_def)
  from a have 4: "parse 12 []
        [tokv ''mixin'' ''outer'' 1, new_token ''indent'',
           tokv ''mixin'' ''inner'' 2, new_token ''indent'', tokv ''tag'' ''p'' 3,
           new_token ''outdent'',
           new_token ''mixin-block'',
         new_token ''outdent'', new_token ''eos''] ''a.jade'' = Inl AnonymousBlockOutsideMixin"
    by (simp add: eval_nat_numeral)
  from 1 3 4 show ?thesis by blast
qed

section \<open>The cursor\<close>

lemma lookahead_0: "lookahead 0 s = peek s"
  by (simp add: lookahead_def peek_def split: list.splits)

lemma lookahead_1:
  "tokens s = t # ts \<Longrightarrow>
   lookahead 1 s = (case ts of [] \<Rightarrow> Inl StreamEnd | q # r \<Rightarrow> Inr (q, s))"
  by (simp add: lookahead_def split: list.splits)

lemma lookahead_pure:
  "lookahead n s = Inr (q, s') \<Longrightarrow> s' = s \<and> n < length (tokens s) \<and> q = tokens s ! n"
  by (auto simp: lookahead_def split: if_splits)

lemma lookahead_within:
  "n < length (tokens s) \<Longrightarrow> lookahead n s = Inr (tokens s ! n, s)"
  by (simp add: lookahead_def)

lemma lookahead_beyond:
  "length (tokens s) \<le> n \<Longrightarrow> lookahead n s = Inl StreamEnd"
  by (simp add: lookahead_def)

text \<open>
  Claim C6, as the specification states it, is that \<^verbatim>\<open>lookahead(1)\<close> returns the
  token that \<^verbatim>\<open>peek()\<close> returns.  On the stream \<^verbatim>\<open>[newline, code]\<close> the first is
  the \<^verbatim>\<open>code\<close> token and the second the \<^verbatim>\<open>newline\<close> token.
\<close>

theorem lookahead_1_not_peek:
  "lookahead 1 (Parser [] [new_token ''newline'', new_token ''code''] ''a.jade'')
     \<noteq> peek (Parser [] [new_token ''newline'', new_token ''code''] ''a.jade'')"
  by (simp add: lookahead_def peek_def Parser_def new_token_def)

text \<open>
  Claim C6, amended.  \<^verbatim>\<open>lookahead\<close> counts from 0: \<^verbatim>\<open>lookahead(0)\<close> returns what
  \<^verbatim>\<open>peek()\<close> returns, \<^verbatim>\<open>lookahead(1)\<close> returns the token after that one (and throws
  when there is none), and \<^verbatim>\<open>lookahead(n)\<close> returns element \<^verbatim>\<open>n\<close> of the rest of the
  stream, whenever the stream holds more than \<^verbatim>\<open>n\<close> tokens, and consumes nothing; it
  throws when the stream holds \<^verbatim>\<open>n\<close> tokens or fewer.
\<close>

theorem lookahead_zero_indexed:
  "lookahead 0 s = peek s
   \<and> (tokens s = t # ts \<longrightarrow>
        lookahead 1 s = (case ts of [] \<Rightarrow> Inl StreamEnd | q # r \<Rightarrow> Inr (q, s)))
   \<and> (n < length (tokens s) \<longrightarrow> lookahead n s = Inr (tokens s ! n, s))
   \<and> (length (tokens s) \<le> n \<longrightarrow> lookahead n s = Inl StreamEnd)
   \<and> (lookahead n s = Inr (q, s') \<longrightarrow> s' = s \<and> n < length (tokens s) \<and> q = tokens s ! n)"
  using lookahead_0 [of s] lookahead_1 [of s t ts] lookahead_pure [of n s q s']
    lookahead_within [of n s] lookahead_beyond [of s n]
  by blast

theorem lookahead_zero_indexed_witness:
  "lookahead 0 (Parser [] [new_token ''newline'', new_token ''code''] ''a.jade'')
     = peek (Parser [] [new_token ''newline'', new_token ''code''] ''a.jade'')
   \<and> lookahead 1 (Parser [] [new_token ''newline'', new_token ''code''] ''a.jade'')
     = Inr (new_token ''code'',
            Parser [] [new_token ''newline'', new_token ''code''] ''a.jade'')"
proof -
  let ?s = "Parser [] [new_token ''newline'', new_token ''code''] ''a.jade''"
  note a = lookahead_zero_indexed [where s = ?s and t = "new_token ''newline''"
      and ts = "[new_token ''code'']" and n = 1 and q = "new_token ''code''" and s' = ?s]
  have pre: "tokens ?s = new_token ''newline'' # [new_token ''code'']"
    by (simp add: Parser_def)
  from a pre show ?thesis by simp
qed

section \<open>Code tokens: else without if\<close>

lemma mark_else_error: "mark_else t s = Inl e \<Longrightarrow> e = StreamEnd"
  by (auto simp: mark_else_def peek_def lookahead_def and_then_Inl
        split: if_splits list.splits)

lemma parseCode_else_without_if:
  assumes "tokens s = t # ts" "tok_type t = ''code''"
  shows "(parseCode (with_fuel (Suc n)) s = Inl ElseWithoutIf) \<longleftrightarrow>
     (tok_isElse t \<and> \<not> tok_hasIf t)
     \<or> ((\<exists>i r. ts = i # r \<and> tok_type i = ''indent'')
        \<and> block (with_fuel n) (s\<lparr> tokens := ts \<rparr>) = Inl ElseWithoutIf)"
proof (cases "tok_isElse t \<and> \<not> tok_hasIf t")
  case True
  with assms show ?thesis
    by (simp add: with_fuel_Suc parseCode_body_def expect_def peek_def advance_def Let_def)
next
  case False
  show ?thesis
  proof (cases ts)
    case Nil
    with assms False show ?thesis
      by (simp add: with_fuel_Suc parseCode_body_def expect_def peek_def advance_def Let_def)
  next
    case (Cons i r)
    with assms False show ?thesis
      by (auto simp: with_fuel_Suc parseCode_body_def expect_def peek_def advance_def Let_def
            and_then_Inl dest: mark_else_error)
  qed
qed

lemma else_alone:
  "parse (n + 3) tags [(tokv ''code'' ''else'' 1)\<lparr> tok_isElse := True \<rparr>] fn
     = Inl ElseWithoutIf"
  by (simp add: parser_defs)

text \<open>
  Claim C7.  When \<^verbatim>\<open>parseCode\<close> has consumed a \<^verbatim>\<open>code\<close> token, its own
  \<^verbatim>\<open>throw\<close> of \<open>ElseWithoutIf\<close> runs exactly when the token is flagged
  \<^verbatim>\<open>isElse\<close> and does not carry \<^verbatim>\<open>hasIf\<close>: the call ends in that error if and only
  if this is so or the error comes out of the parse of the indented block that follows
  the token (where a nested call has raised it).  The error is a result without a node.
  The stream \<^verbatim>\<open>[code('else', isElse)]\<close> fails with \<open>ElseWithoutIf\<close>.
\<close>

theorem else_without_if:
  "(tokens s = t # ts \<and> tok_type t = ''code'' \<longrightarrow>
      ((parseCode (with_fuel (Suc k)) s = Inl ElseWithoutIf) \<longleftrightarrow>
         (tok_isElse t \<and> \<not> tok_hasIf t)
         \<or> ((\<exists>i r. ts = i # r \<and> tok_type i = ''indent'')
            \<and> block (with_fuel k) (s\<lparr> tokens := ts \<rparr>) = Inl ElseWithoutIf)))
   \<and> parse (n + 3) tags [(tokv ''code'' ''else'' 1)\<lparr> tok_isElse := True \<rparr>] fn
       = Inl ElseWithoutIf"
  using parseCode_else_without_if [of s t ts k] else_alone [of n tags fn]
  by blast

theorem else_without_if_witness:
  "parseCode (with_fuel 1)
     (Parser [] [(tokv ''code'' ''else'' 1)\<lparr> tok_isElse := True \<rparr>, new_token ''eos''] ''a.jade'')
     = Inl ElseWithoutIf
   \<and> parseCode (with_fuel 1)
     (Parser [] [(tokv ''code'' ''else'' 1)\<lparr> tok_isElse := True, tok_hasIf := True \<rparr>,
                 new_token ''eos''] ''a.jade'')
     \<noteq> Inl ElseWithoutIf
   \<and> parse 3 [] [(tokv ''code'' ''else'' 1)\<lparr> tok_isElse := True \<rparr>] ''a.jade''
       = Inl ElseWithoutIf"
proof -
  let ?e = "(tokv ''code'' ''else'' 1)\<lparr> tok_isElse := True \<rparr>"
  let ?s = "Parser [] [?e, new_token ''eos''] ''a.jade''"
  let ?s2 = "Parser [] [?e\<lparr> tok_hasIf := True \<rparr>, new_token ''eos''] ''a.jade''"
  note a = else_without_if [where s = ?s and t = ?e and ts = "[new_token ''eos'']"
      and k = 0 and n = 0 and tags = "[]" and fn = "''a.jade''"]
  note b = else_without_if [where s = ?s2 and t = "?e\<lparr> tok_hasIf := True \<rparr>"
      and ts = "[new_token ''eos'']" and k = 0 and n = 0 and tags = "[]" and fn = "''a.jade''"]
  from a have 1: "parseCode (with_fuel 1) ?s = Inl ElseWithoutIf"
    by (simp add: Parser_def tokv_def new_token_def)
  from b have 2: "parseCode (with_fuel 1) ?s2 \<noteq> Inl ElseWithoutIf"
    by (simp add: Parser_def tokv_def new_token_def)
  from a have 3: "parse 3 [] [?e] ''a.jade'' = Inl ElseWithoutIf"
    by (simp add: eval_nat_numeral)
  from 1 2 3 show ?thesis by blast
qed

section \<open>The merge of raw HTML text\<close>

lemma html_text_tokens [simp]: "html_text t (s\<lparr> tokens := ts \<rparr>) st = html_text t s st"
  by (simp add: html_text_def split: prod.splits option.splits)

lemma parseTextHtml_loop_step:
  assumes "tok_type t = ''text-html''" "tok_type t' = ''text-html''"
  shows "parseTextHtml_loop (with_fuel (Suc n)) st (s\<lparr> tokens := t # t' # rest \<rparr>)
         = parseTextHtml_loop (with_fuel n) (html_text t s st) (s\<lparr> tokens := t' # rest \<rparr>)"
  using assms
  by (simp add: with_fuel_Suc parseTextHtml_loop_body_def peek_def advance_def)

lemma parseTextHtml_loop_run:
  assumes "\<forall>t \<in> set ths. tok_type t = ''text-html''" "tok_type lst = ''text-html''"
  shows "parseTextHtml_loop (with_fuel (length ths + n)) st (s\<lparr> tokens := ths @ lst # rest \<rparr>)
         = parseTextHtml_loop (with_fuel n) (foldl (\<lambda>st t. html_text t s st) st ths)
             (s\<lparr> tokens := lst # rest \<rparr>)"
  using assms
proof (induction ths arbitrary: st)
  case Nil
  then show ?case by simp
next
  case (Cons t ths)
  have nxt: "tok_type (hd (ths @ [lst])) = ''text-html''"
    using Cons.prems by (cases ths) auto
  obtain t' rest' where split: "ths @ lst # rest = t' # rest'" "tok_type t' = ''text-html''"
    using nxt by (cases ths) auto
  have "parseTextHtml_loop (with_fuel (Suc (length ths + n))) st
          (s\<lparr> tokens := t # t' # rest' \<rparr>)
        = parseTextHtml_loop (with_fuel (length ths + n)) (html_text t s st)
          (s\<lparr> tokens := t' # rest' \<rparr>)"
    using Cons.prems split(2) by (intro parseTextHtml_loop_step) auto
  with Cons split show ?case by simp
qed

lemma parseTextHtml_loop_last:
  assumes "tok_type lst = ''text-html''" "tok_type q \<noteq> ''text-html''" "tok_type q \<noteq> ''indent''"
    and "tok_type q = ''newline'' \<longrightarrow> (\<exists>q' r'. r = q' # r' \<and> tok_type q' \<noteq> ''text-html'')"
  shows "parseTextHtml_loop (with_fuel (Suc (Suc n))) st (s\<lparr> tokens := lst # q # r \<rparr>)
         = Inr (fst (html_text lst s st),
                s\<lparr> tokens := (if tok_type q = ''newline'' then r else q # r) \<rparr>)"
  using assms
  by (auto simp: with_fuel_Suc parseTextHtml_loop_body_def peek_def advance_def)

lemma html_text_Some:
  "html_text t s ([html_node v fn l], Some 0) = ([html_node (v @ CHR 0x0A # tok_val t) fn l], Some 0)"
  by (simp add: html_text_def html_node_def append_val_def)

lemma html_text_None:
  "html_text t s ([], None) = ([html_node (tok_val t) (filename s) (tok_line t)], Some 0)"
  by (simp add: html_text_def html_node_def)

lemma join_newline_snoc:
  "xs \<noteq> [] \<Longrightarrow> join_newline (xs @ [y]) = join_newline xs @ CHR 0x0A # y"
  by (induction xs rule: join_newline.induct) auto

lemma foldl_html_text:
  "foldl (\<lambda>st t. html_text t s st) ([html_node v fn l], Some 0) ths
   = ([html_node (join_newline (v # map tok_val ths)) fn l], Some 0)"
proof (induction ths rule: rev_induct)
  case Nil
  then show ?case by simp
next
  case (snoc t ths)
  have "join_newline ((v # map tok_val ths) @ [tok_val t])
        = join_newline (v # map tok_val ths) @ CHR 0x0A # tok_val t"
    by (rule join_newline_snoc) simp
  with snoc show ?case by (simp add: html_text_Some)
qed

lemma parseTextHtml_run:
  assumes run: "ths \<noteq> []" "\<forall>t \<in> set ths. tok_type t = ''text-html''"
    and toks: "tokens s = ths @ q # r"
    and q: "tok_type q \<noteq> ''text-html''" "tok_type q \<noteq> ''indent''"
      "tok_type q = ''newline'' \<longrightarrow> (\<exists>q' r'. r = q' # r' \<and> tok_type q' \<noteq> ''text-html'')"
  shows "parseTextHtml (with_fuel (length ths + 2 + n)) s
         = Inr ([html_node (join_newline (map tok_val ths)) (filename s) (tok_line (hd ths))],
                s\<lparr> tokens := (if tok_type q = ''newline'' then r else q # r) \<rparr>)"
proof -
  obtain t1 mid where ths: "ths = t1 # mid" using run(1) by (cases ths) auto
  obtain pre lst where snoc: "ths = pre @ [lst]" using run(1) by (cases ths rule: rev_cases) auto
  have lst: "tok_type lst = ''text-html''" and pre: "\<forall>t \<in> set pre. tok_type t = ''text-html''"
    using run(2) snoc by auto
  have s: "s = s\<lparr> tokens := pre @ lst # q # r \<rparr>" using toks snoc by simp
  have "parseTextHtml (with_fuel (length ths + 2 + n)) s
        = parseTextHtml_loop (with_fuel (length pre + Suc (Suc n))) ([], None)
            (s\<lparr> tokens := pre @ lst # q # r \<rparr>)"
    using s snoc by (simp add: with_fuel_Suc parseTextHtml_body_def)
  also have "\<dots> = parseTextHtml_loop (with_fuel (Suc (Suc n)))
            (foldl (\<lambda>st t. html_text t s st) ([], None) pre) (s\<lparr> tokens := lst # q # r \<rparr>)"
    using pre lst by (rule parseTextHtml_loop_run)
  also have "\<dots> = Inr (fst (html_text lst s (foldl (\<lambda>st t. html_text t s st) ([], None) pre)),
                s\<lparr> tokens := (if tok_type q = ''newline'' then r else q # r) \<rparr>)"
    using lst q by (rule parseTextHtml_loop_last)
  also have "html_text lst s (foldl (\<lambda>st t. html_text t s st) ([], None) pre)
        = foldl (\<lambda>st t. html_text t s st) ([], None) ths"
    using snoc by simp
  also have "\<dots> = ([html_node (join_newline (map tok_val ths)) (filename s) (tok_line (hd ths))],
                    Some 0)"
    using ths by (simp add: html_text_None foldl_html_text)
  finally show ?thesis by simp
qed

lemma text_html_example:
  "parse (n + 5) tags [tokv ''text-html'' ''a'' 1, tokv ''text-html'' ''b'' 2, new_token ''newline'', new_token ''eos''] fn
  = Inr (JObj [(''type'', JStr ''Block''), (''nodes'', JArr [JObj [(''type'', JStr ''Text''), (''val'', JStr [CHR ''a'', CHR 0x0A, CHR ''b'']), (''filename'', JStr fn), (''line'', JNum 1), (''isHtml'', JBool True)]]), (''line'', JNum 0), (''filename'', JStr fn)])"
  by (simp add: parser_defs)


text \<open>
  Claim C8, as the specification states it, says that the tokens
  \<^verbatim>\<open>[text-html 'a', text-html 'b', newline]\<close> yield one Text node.  The stream as it
  is listed ends without an \<^verbatim>\<open>eos\<close> token: \<^verbatim>\<open>parseTextHtml\<close> consumes the
  \<^verbatim>\<open>newline\<close> token and looks at the next token for the test of its loop, there is
  none, and the token stream throws; so does \<^verbatim>\<open>parse\<close>.  This is the answer for
  every bound on the calls from 4 on, and from 5 on for \<^verbatim>\<open>parse\<close>.
\<close>

theorem text_html_without_eos:
  "\<forall>n. parseTextHtml (with_fuel (n + 4))
        (Parser [] [tokv ''text-html'' ''a'' 1, tokv ''text-html'' ''b'' 2,
                    new_token ''newline''] ''a.jade'')
      = Inl StreamEnd
      \<and> parse (n + 5) []
          [tokv ''text-html'' ''a'' 1, tokv ''text-html'' ''b'' 2, new_token ''newline'']
          ''a.jade''
        = Inl StreamEnd"
  by (simp add: parser_defs)

text \<open>
  Claim C8, amended.  A run of consecutive \<^verbatim>\<open>text-html\<close> tokens, followed by a token that
  is neither \<^verbatim>\<open>text-html\<close> nor \<^verbatim>\<open>indent\<close> (a \<^verbatim>\<open>newline\<close> that follows the run
  is consumed, and must not be followed by more \<^verbatim>\<open>text-html\<close>), becomes one Text
  node marked \<^verbatim>\<open>isHtml\<close>, with the file name, the line of the first token, and the
  values of the tokens joined by line feeds; this needs a bound on the calls of the
  length of the run plus 2.  The stream \<^verbatim>\<open>[text-html 'a', text-html 'b', newline]\<close>,
  closed by the \<^verbatim>\<open>eos\<close> token with which the lexer ends every stream, yields a root whose only node is a Text node with the value
  \<^verbatim>\<open>"a\nb"\<close>.
\<close>

theorem text_html_coalesced:
  "(ths \<noteq> [] \<and> (\<forall>t \<in> set ths. tok_type t = ''text-html'') \<and> tokens s = ths @ q # r
      \<and> tok_type q \<noteq> ''text-html'' \<and> tok_type q \<noteq> ''indent''
      \<and> (tok_type q = ''newline'' \<longrightarrow> (\<exists>q' r'. r = q' # r' \<and> tok_type q' \<noteq> ''text-html''))
    \<longrightarrow> parseTextHtml (with_fuel (length ths + 2 + k)) s
         = Inr ([html_node (join_newline (map tok_val ths)) (filename s) (tok_line (hd ths))],
                s\<lparr> tokens := (if tok_type q = ''newline'' then r else q # r) \<rparr>))
   \<and> parse (n + 5) tags
        [tokv ''text-html'' ''a'' 1, tokv ''text-html'' ''b'' 2, new_token ''newline'',
         new_token ''eos''] fn
     = Inr (JObj [(''type'', JStr ''Block''),
                  (''nodes'', JArr [JObj [(''type'', JStr ''Text''),
                     (''val'', JStr [CHR ''a'', CHR 0x0A, CHR ''b'']),
                     (''filename'', JStr fn), (''line'', JNum 1), (''isHtml'', JBool True)]]),
                  (''line'', JNum 0), (''filename'', JStr fn)])"
  using parseTextHtml_run [of ths s q r k] text_html_example [of n tags fn]
  by blast

theorem text_html_coalesced_witness:
  "parseTextHtml (with_fuel 4)
     (Parser [] [tokv ''text-html'' ''a'' 1, tokv ''text-html'' ''b'' 2, new_token ''newline'',
                 new_token ''eos''] ''a.jade'')
   = Inr ([JObj [(''type'', JStr ''Text''), (''val'', JStr [CHR ''a'', CHR 0x0A, CHR ''b'']),
                 (''filename'', JStr ''a.jade''), (''line'', JNum 1), (''isHtml'', JBool True)]],
          Parser [] [new_token ''eos''] ''a.jade'')"
proof -
  let ?ths = "[tokv ''text-html'' ''a'' 1, tokv ''text-html'' ''b'' 2]"
  let ?s = "Parser [] [tokv ''text-html'' ''a'' 1, tokv ''text-html'' ''b'' 2,
                 new_token ''newline'', new_token ''eos''] ''a.jade''"
  note a = text_html_coalesced [where ths = ?ths and s = ?s and q = "new_token ''newline''"
      and r = "[new_token ''eos'']" and k = 0 and n = 0 and tags = "[]" and fn = "''a.jade''"]
  have pre: "?ths \<noteq> [] \<and> (\<forall>t \<in> set ?ths. tok_type t = ''text-html'')
      \<and> tokens ?s = ?ths @ new_token ''newline'' # [new_token ''eos'']
      \<and> tok_type (new_token ''newline'') \<noteq> ''text-html''
      \<and> tok_type (new_token ''newline'') \<noteq> ''indent''
      \<and> (tok_type (new_token ''newline'') = ''newline'' \<longrightarrow>
           (\<exists>q' r'. [new_token ''eos''] = q' # r' \<and> tok_type q' \<noteq> ''text-html''))"
    by (simp add: Parser_def tokv_def new_token_def)
  from a pre have f: "parseTextHtml (with_fuel (length ?ths + 2 + 0)) ?s
         = Inr ([html_node (join_newline (map tok_val ?ths)) (filename ?s) (tok_line (hd ?ths))],
                ?s\<lparr> tokens := (if tok_type (new_token ''newline'') = ''newline''
                                then [new_token ''eos'']
                                else new_token ''newline'' # [new_token ''eos'']) \<rparr>)"
    by blast
  have n4: "length ?ths + 2 + 0 = 4" by simp
  have res: "html_node (join_newline (map tok_val ?ths)) (filename ?s) (tok_line (hd ?ths))
      = JObj [(''type'', JStr ''Text''), (''val'', JStr [CHR ''a'', CHR 0x0A, CHR ''b'']),
              (''filename'', JStr ''a.jade''), (''line'', JNum 1), (''isHtml'', JBool True)]"
    by (simp add: html_node_def Parser_def tokv_def)
  have st: "?s\<lparr> tokens := (if tok_type (new_token ''newline'') = ''newline''
                                then [new_token ''eos'']
                                else new_token ''newline'' # [new_token ''eos'']) \<rparr>
      = Parser [] [new_token ''eos''] ''a.jade''"
    by (simp add: Parser_def new_token_def)
  from f show ?thesis unfolding n4 res st .
qed

section \<open>Tags and the table of inline tags\<close>

lemma map_of_update_prop_other:
  "k \<noteq> k' \<Longrightarrow> map_of (update_prop k v ps) k' = map_of ps k'"
  by (induction ps) auto

lemma get_prop_set_prop_other:
  "k \<noteq> k' \<Longrightarrow> get_prop (set_prop x k v) k' = get_prop x k'"
  by (cases x) (simp_all add: map_of_update_prop_other)

lemma map_of_update_prop_same: "map_of (update_prop k v ps) k = Some v"
  by (induction ps) auto

lemma get_prop_set_prop_same: "get_prop (set_prop (JObj ps) k v) k = v"
  by (simp add: map_of_update_prop_same)

lemma tag_attrs_entries_keeps:
  "tag_attrs_entries tg names as = Inr (tg', names') \<Longrightarrow> k \<noteq> ''attrs''
   \<Longrightarrow> get_prop tg' k = get_prop tg k"
  by (induction tg names as rule: tag_attrs_entries.induct)
     (auto simp: get_prop_set_prop_other split: if_splits)

lemma tag_attrs_loop_keeps:
  "tag_attrs_loop fn tg seen names ws ts = Inr (tg', ws', ts') \<Longrightarrow>
   k \<noteq> ''attrs'' \<Longrightarrow> k \<noteq> ''selfClosing'' \<Longrightarrow> k \<noteq> ''attributeBlocks''
   \<Longrightarrow> get_prop tg' k = get_prop tg k"
proof (induction fn tg seen names ws ts rule: tag_attrs_loop.induct)
  case (1 fn tg seen names ws)
  then show ?case by simp
next
  case (2 fn tg seen names ws t ts)
  show ?case
  proof (cases "tok_type t = ''id'' \<or> tok_type t = ''class''")
    case True
    with 2 show ?thesis
      by (auto simp: get_prop_set_prop_other split: if_splits)
  next
    case False
    note nid = this
    show ?thesis
    proof (cases "tok_type t = ''attrs''")
      case True
      with 2 nid show ?thesis
        by (auto simp: get_prop_set_prop_other split: if_splits sum.splits
              dest!: tag_attrs_entries_keeps [where k = k])
    next
      case False
      with 2 nid show ?thesis
        by (auto simp: get_prop_set_prop_other split: if_splits)
    qed
  qed
qed

lemma foldl_push_block_node_keeps:
  "k \<noteq> ''block'' \<Longrightarrow> get_prop (foldl push_block_node tg xs) k = get_prop tg k"
  by (induction xs arbitrary: tg) (simp_all add: push_block_node_def Let_def get_prop_set_prop_other)

lemma tag_dot_keeps:
  "tag_dot tg s = Inr (tg', s') \<Longrightarrow> k \<noteq> ''textOnly'' \<Longrightarrow> get_prop tg' k = get_prop tg k"
  by (auto simp: tag_dot_def and_then_Inr peek_def advance_def get_prop_set_prop_other
        split: if_splits list.splits)

lemma tag_inline_keeps:
  "tag_inline r tg s = Inr (tg', s') \<Longrightarrow> k \<noteq> ''block'' \<Longrightarrow> k \<noteq> ''code''
   \<Longrightarrow> get_prop tg' k = get_prop tg k"
  by (auto simp: tag_inline_def and_then_Inr peek_def advance_def get_prop_set_prop_other
        push_block_node_def Let_def split: if_splits list.splits)

lemma tag_block_keeps:
  "tag_block r tg s = Inr (tg', s') \<Longrightarrow> k \<noteq> ''block'' \<Longrightarrow> get_prop tg' k = get_prop tg k"
  by (auto simp: tag_block_def and_then_Inr peek_def get_prop_set_prop_other
        foldl_push_block_node_keeps split: if_splits list.splits)

lemma tag_attrs_keeps:
  "tag_attrs tg s = Inr (tg', s') \<Longrightarrow>
   k \<noteq> ''attrs'' \<Longrightarrow> k \<noteq> ''selfClosing'' \<Longrightarrow> k \<noteq> ''attributeBlocks''
   \<Longrightarrow> get_prop tg' k = get_prop tg k"
  by (auto simp: tag_attrs_def split: sum.splits dest!: tag_attrs_loop_keeps [where k = k])

lemma tag_keeps:
  assumes "tag (with_fuel n) tg s = Inr (tg', s')"
    and "k \<noteq> ''line''" "k \<noteq> ''attrs''" "k \<noteq> ''selfClosing''" "k \<noteq> ''attributeBlocks''"
      "k \<noteq> ''textOnly''" "k \<noteq> ''block''" "k \<noteq> ''code''"
  shows "get_prop tg' k = get_prop tg k"
proof (cases n)
  case 0
  with assms show ?thesis by (simp add: with_fuel_0)
next
  case (Suc m)
  with assms(1) have "tag_body (with_fuel m) tg s = Inr (tg', s')"
    by (simp add: with_fuel_Suc)
  then obtain tg1 s1 tg2 s2 tg3 s3 u s4 where
    a: "tag_attrs (set_prop tg ''line'' (line s)) s = Inr (tg1, s1)"
    and b: "tag_dot tg1 s1 = Inr (tg2, s2)"
    and c: "tag_inline (with_fuel m) tg2 s2 = Inr (tg3, s3)"
    and d: "skip_newlines s3 = Inr (u, s4)"
    and e: "tag_block (with_fuel m) tg3 s4 = Inr (tg', s')"
    unfolding tag_body_def and_then_Inr by blast
  have "get_prop tg1 k = get_prop (set_prop tg ''line'' (line s)) k"
    using a assms by (intro tag_attrs_keeps) auto
  moreover have "get_prop tg2 k = get_prop tg1 k" using b assms by (intro tag_dot_keeps) auto
  moreover have "get_prop tg3 k = get_prop tg2 k" using c assms by (intro tag_inline_keeps) auto
  moreover have "get_prop tg' k = get_prop tg3 k" using e assms by (intro tag_block_keeps) auto
  ultimately show ?thesis using assms(2) by (simp add: get_prop_set_prop_other)
qed

lemma parseExpr_tag_isInline:
  assumes "tokens s = t # ts" "tok_type t = ''tag''"
    and "parseExpr (with_fuel n) s = Inr (tg, s')"
  shows "get_prop tg ''type'' = JStr ''Tag'' \<and> get_prop tg ''name'' = JStr (tok_val t)
       \<and> get_prop tg ''isInline'' = JBool (tok_val t \<in> set (inlineTags s))"
proof -
  obtain m where n: "n = Suc (Suc m)"
    using assms by (cases n; cases "n - 1")
      (auto simp: with_fuel_0 with_fuel_Suc parseExpr_body_def peek_def)
  let ?tg0 = "JObj [(''type'', JStr ''Tag''), (''name'', JStr (tok_val t)),
                    (''selfClosing'', tok_selfClosing t), (''block'', empty_block),
                    (''attrs'', JArr []), (''attributeBlocks'', JArr []),
                    (''isInline'', JBool (index_of_found (inlineTags s) (tok_val t)))]"
  have "tag (with_fuel m) ?tg0 (s\<lparr> tokens := ts \<rparr>) = Inr (tg, s')"
    using assms n
    by (simp add: with_fuel_Suc parseExpr_body_def parseTag_body_def peek_def advance_def)
  from tag_keeps [OF this, of "''type''"] tag_keeps [OF this, of "''name''"]
    tag_keeps [OF this, of "''isInline''"]
  show ?thesis by (simp add: index_of_found_def)
qed

lemma parseExpr_interpolation_isInline:
  assumes "tokens s = t # ts" "tok_type t = ''interpolation''"
    and "parseExpr (with_fuel n) s = Inr (tg, s')"
  shows "get_prop tg ''type'' = JStr ''Tag'' \<and> get_prop tg ''name'' = JStr (tok_val t)
       \<and> get_prop tg ''buffer'' = JBool True
       \<and> get_prop tg ''isInline'' = JBool False"
proof -
  obtain m where n: "n = Suc (Suc m)"
    using assms by (cases n; cases "n - 1")
      (auto simp: with_fuel_0 with_fuel_Suc parseExpr_body_def peek_def)
  let ?tg0 = "JObj [(''type'', JStr ''Tag''), (''name'', JStr (tok_val t)),
                    (''selfClosing'', tok_selfClosing t), (''block'', empty_block),
                    (''attrs'', JArr []), (''attributeBlocks'', JArr []),
                    (''buffer'', JBool True), (''isInline'', JBool False)]"
  have "tag (with_fuel m) ?tg0 (s\<lparr> tokens := ts \<rparr>) = Inr (tg, s')"
    using assms n
    by (simp add: with_fuel_Suc parseExpr_body_def parseInterpolation_body_def peek_def
          advance_def)
  from tag_keeps [OF this, of "''type''"] tag_keeps [OF this, of "''name''"]
    tag_keeps [OF this, of "''isInline''"] tag_keeps [OF this, of "''buffer''"]
  show ?thesis by simp
qed

text \<open>
  Claim C9, as the specification states it, says that the \<^verbatim>\<open>isInline\<close> of the Tag
  built from an \<^verbatim>\<open>interpolation\<close> token is true when the name is in the table of
  inline tags.  With the table \<^verbatim>\<open>['a']\<close>, the interpolation token of value
  \<^verbatim>\<open>a\<close> gives a Tag named \<^verbatim>\<open>a\<close> whose \<^verbatim>\<open>isInline\<close> is false.
\<close>

theorem interpolated_tag_not_inline:
  "parse 4 [''a''] [tokv ''interpolation'' ''a'' 1, new_token ''eos''] ''a.jade''
   = Inr (JObj [(''type'', JStr ''Block''),
        (''nodes'', JArr [JObj [(''type'', JStr ''Tag''), (''name'', JStr ''a''),
             (''block'', JObj [(''type'', JStr ''Block''), (''nodes'', JArr [])]),
             (''attrs'', JArr []), (''attributeBlocks'', JArr []),
             (''buffer'', JBool True), (''isInline'', JBool False),
             (''line'', JNum 1), (''filename'', JStr ''a.jade'')]]),
        (''line'', JNum 0), (''filename'', JStr ''a.jade'')])
   \<and> index_of_found [''a''] ''a''"
  by (simp add: parser_defs)

text \<open>
  Claim C9, amended.  The Tag node that \<^verbatim>\<open>parseExpr\<close> returns for a \<^verbatim>\<open>tag\<close> token
  has the token's value as its name, and its \<^verbatim>\<open>isInline\<close> is true if and only if
  that name is in the table of inline tags.  The Tag node returned for an
  \<^verbatim>\<open>interpolation\<close> token has \<^verbatim>\<open>buffer\<close> true and \<^verbatim>\<open>isInline\<close> false, whatever
  its name.
\<close>

theorem isInline_of_tag:
  "(tokens s = t # ts \<and> tok_type t = ''tag'' \<and> parseExpr (with_fuel n) s = Inr (tg, s')
      \<longrightarrow> get_prop tg ''type'' = JStr ''Tag'' \<and> get_prop tg ''name'' = JStr (tok_val t)
          \<and> get_prop tg ''isInline'' = JBool (tok_val t \<in> set (inlineTags s)))
   \<and> (tokens s = t # ts \<and> tok_type t = ''interpolation''
        \<and> parseExpr (with_fuel n) s = Inr (tg, s')
      \<longrightarrow> get_prop tg ''type'' = JStr ''Tag'' \<and> get_prop tg ''name'' = JStr (tok_val t)
          \<and> get_prop tg ''buffer'' = JBool True
          \<and> get_prop tg ''isInline'' = JBool False)"
  using parseExpr_tag_isInline [of s t ts n tg s']
    parseExpr_interpolation_isInline [of s t ts n tg s']
  by blast

theorem isInline_of_tag_witness:
  "parseExpr (with_fuel 3) (Parser [''a''] [tokv ''tag'' ''a'' 1, new_token ''eos''] ''a.jade'')
   = Inr (JObj [(''type'', JStr ''Tag''), (''name'', JStr ''a''),
                (''selfClosing'', JUndefined),
                (''block'', JObj [(''type'', JStr ''Block''), (''nodes'', JArr [])]),
                (''attrs'', JArr []), (''attributeBlocks'', JArr []),
                (''isInline'', JBool True), (''line'', JUndefined)],
          Parser [''a''] [new_token ''eos''] ''a.jade'')
   \<and> get_prop (JObj [(''type'', JStr ''Tag''), (''name'', JStr ''a''),
                (''selfClosing'', JUndefined),
                (''block'', JObj [(''type'', JStr ''Block''), (''nodes'', JArr [])]),
                (''attrs'', JArr []), (''attributeBlocks'', JArr []),
                (''isInline'', JBool True), (''line'', JUndefined)]) ''isInline''
     = JBool (''a'' \<in> set [''a''])
   \<and> parseExpr (with_fuel 3)
       (Parser [''a''] [tokv ''interpolation'' ''a'' 1, new_token ''eos''] ''a.jade'')
   = Inr (JObj [(''type'', JStr ''Tag''), (''name'', JStr ''a''),
                (''selfClosing'', JUndefined),
                (''block'', JObj [(''type'', JStr ''Block''), (''nodes'', JArr [])]),
                (''attrs'', JArr []), (''attributeBlocks'', JArr []),
                (''buffer'', JBool True), (''isInline'', JBool False),
                (''line'', JUndefined)],
          Parser [''a''] [new_token ''eos''] ''a.jade'')"
proof -
  let ?s = "Parser [''a''] [tokv ''tag'' ''a'' 1, new_token ''eos''] ''a.jade''"
  let ?s' = "Parser [''a''] [new_token ''eos''] ''a.jade''"
  let ?tg = "JObj [(''type'', JStr ''Tag''), (''name'', JStr ''a''),
                (''selfClosing'', JUndefined),
                (''block'', JObj [(''type'', JStr ''Block''), (''nodes'', JArr [])]),
                (''attrs'', JArr []), (''attributeBlocks'', JArr []),
                (''isInline'', JBool True), (''line'', JUndefined)]"
  have run: "parseExpr (with_fuel 3) ?s = Inr (?tg, ?s')"
    by (simp add: parser_defs)
  have run2: "parseExpr (with_fuel 3)
       (Parser [''a''] [tokv ''interpolation'' ''a'' 1, new_token ''eos''] ''a.jade'')
   = Inr (JObj [(''type'', JStr ''Tag''), (''name'', JStr ''a''),
                (''selfClosing'', JUndefined),
                (''block'', JObj [(''type'', JStr ''Block''), (''nodes'', JArr [])]),
                (''attrs'', JArr []), (''attributeBlocks'', JArr []),
                (''buffer'', JBool True), (''isInline'', JBool False),
                (''line'', JUndefined)], ?s')"
    by (simp add: parser_defs)
  have pre: "tokens ?s = tokv ''tag'' ''a'' 1 # [new_token ''eos'']
      \<and> tok_type (tokv ''tag'' ''a'' 1) = ''tag''"
    by (simp add: Parser_def tokv_def new_token_def)
  have vals: "tok_val (tokv ''tag'' ''a'' 1) = ''a''" "inlineTags ?s = [''a'']"
    by (simp_all add: Parser_def tokv_def new_token_def)
  note a = isInline_of_tag [where s = ?s and t = "tokv ''tag'' ''a'' 1"
      and ts = "[new_token ''eos'']" and n = 3 and tg = ?tg and s' = ?s']
  from a pre run have "get_prop ?tg ''isInline''
      = JBool (tok_val (tokv ''tag'' ''a'' 1) \<in> set (inlineTags ?s))"
    by blast
  then have "get_prop ?tg ''isInline'' = JBool (''a'' \<in> set [''a''])"
    unfolding vals .
  with run run2 show ?thesis by blast
qed

section \<open>Duplicate attributes\<close>

lemma tag_attrs_entries_Inl:
  "tag_attrs_entries tg names as = Inl e \<Longrightarrow> distinct names \<Longrightarrow>
   (\<exists>x. e = DuplicateAttribute x)
   \<and> \<not> distinct (names @ filter (\<lambda>x. x \<noteq> ''class'') (map attr_name as))"
  by (induction tg names as rule: tag_attrs_entries.induct)
     (auto simp: index_of_found_def split: if_splits)

lemma tag_attrs_entries_Inr:
  "tag_attrs_entries tg names as = Inr (tg', names') \<Longrightarrow> distinct names \<Longrightarrow>
   names' = names @ filter (\<lambda>x. x \<noteq> ''class'') (map attr_name as) \<and> distinct names'"
  by (induction tg names as arbitrary: tg' names' rule: tag_attrs_entries.induct)
     (auto simp: index_of_found_def split: if_splits)

lemma tag_attrs_loop_Inl:
  "tag_attrs_loop fn tg seen names ws ts = Inl e \<Longrightarrow> distinct names \<Longrightarrow>
   (e = StreamEnd \<and> distinct (names @ attribute_names ts))
   \<or> ((\<exists>x. e = DuplicateAttribute x) \<and> \<not> distinct (names @ attribute_names ts))"
proof (induction fn tg seen names ws ts rule: tag_attrs_loop.induct)
  case (1 fn tg seen names ws)
  then show ?case by simp
next
  case (2 fn tg seen names ws t ts)
  show ?case
  proof (cases "tok_type t = ''attrs''")
    case True
    show ?thesis
    proof (cases "tag_attrs_entries
                (if truthy (tok_selfClosing t) then set_prop tg ''selfClosing'' (JBool True)
                 else tg) names (tok_attrs t)")
      case (Inl e')
      with 2 True have "e = e'" by simp
      with tag_attrs_entries_Inl [OF Inl "2.prems"(2)] True show ?thesis by auto
    next
      case (Inr p)
      obtain tg' names' where p: "p = (tg', names')" by (cases p)
      from tag_attrs_entries_Inr [OF Inr [unfolded p] "2.prems"(2)]
      have n': "names' = names @ filter (\<lambda>x. x \<noteq> ''class'') (map attr_name (tok_attrs t))"
        and d': "distinct names'" by blast+
      from "2.prems"(1) True Inr p
      have lp: "tag_attrs_loop fn tg' True names'
               (if seen then ws @ [MultipleAttributes fn (tok_line t)] else ws) ts = Inl e"
        by simp
      have nid: "\<not> (tok_type t = ''id'' \<or> tok_type t = ''class'')" using True by simp
      from "2.IH"(2) [OF nid True Inr [unfolded p] refl lp d']
      have "(e = StreamEnd \<and> distinct (names' @ attribute_names ts))
         \<or> ((\<exists>x. e = DuplicateAttribute x) \<and> \<not> distinct (names' @ attribute_names ts))"
        by simp
      moreover have "attribute_names (t # ts)
          = filter (\<lambda>x. x \<noteq> ''class'') (map attr_name (tok_attrs t)) @ attribute_names ts"
        using True by simp
      ultimately show ?thesis unfolding n' by (simp only: append_assoc)
    qed
  next
    case False
    with 2 show ?thesis
      by (auto simp: index_of_found_def split: if_splits)
  qed
qed

lemma tag_attrs_loop_Inr:
  "tag_attrs_loop fn tg seen names ws ts = Inr res \<Longrightarrow> distinct names \<Longrightarrow>
   distinct (names @ attribute_names ts)"
proof (induction fn tg seen names ws ts rule: tag_attrs_loop.induct)
  case (1 fn tg seen names ws)
  then show ?case by simp
next
  case (2 fn tg seen names ws t ts)
  show ?case
  proof (cases "tok_type t = ''attrs''")
    case True
    show ?thesis
    proof (cases "tag_attrs_entries
                (if truthy (tok_selfClosing t) then set_prop tg ''selfClosing'' (JBool True)
                 else tg) names (tok_attrs t)")
      case (Inl e')
      with 2 True show ?thesis by simp
    next
      case (Inr p)
      obtain tg' names' where p: "p = (tg', names')" by (cases p)
      from tag_attrs_entries_Inr [OF Inr [unfolded p] "2.prems"(2)]
      have n': "names' = names @ filter (\<lambda>x. x \<noteq> ''class'') (map attr_name (tok_attrs t))"
        and d': "distinct names'" by blast+
      from "2.prems"(1) True Inr p
      have lp: "tag_attrs_loop fn tg' True names'
               (if seen then ws @ [MultipleAttributes fn (tok_line t)] else ws) ts = Inr res"
        by simp
      have nid: "\<not> (tok_type t = ''id'' \<or> tok_type t = ''class'')" using True by simp
      from "2.IH"(2) [OF nid True Inr [unfolded p] refl lp d']
      have "distinct (names' @ attribute_names ts)" by simp
      moreover have "attribute_names (t # ts)
          = filter (\<lambda>x. x \<noteq> ''class'') (map attr_name (tok_attrs t)) @ attribute_names ts"
        using True by simp
      ultimately show ?thesis unfolding n' by (simp only: append_assoc)
    qed
  next
    case False
    with 2 show ?thesis
      by (auto simp: index_of_found_def split: if_splits)
  qed
qed

lemma tag_attrs_loop_duplicate:
  "(\<exists>x. tag_attrs_loop fn tg seen [] ws ts = Inl (DuplicateAttribute x))
   \<longleftrightarrow> \<not> distinct (attribute_names ts)"
proof (cases "tag_attrs_loop fn tg seen [] ws ts")
  case (Inl e)
  with tag_attrs_loop_Inl [OF Inl] show ?thesis by auto
next
  case (Inr res)
  with tag_attrs_loop_Inr [OF Inr] show ?thesis by auto
qed

lemma tag_duplicate:
  "(\<exists>x. tag_attrs tg s = Inl (DuplicateAttribute x)) \<longleftrightarrow> \<not> distinct (attribute_names (tokens s))"
  using tag_attrs_loop_duplicate [of "filename s" tg False "console s" "tokens s"]
  by (auto simp: tag_attrs_def split: sum.splits)

lemma tag_raises_duplicate:
  "\<not> distinct (attribute_names (tokens s)) \<Longrightarrow>
   \<exists>x. tag (with_fuel (Suc n)) tg s = Inl (DuplicateAttribute x)"
proof -
  assume "\<not> distinct (attribute_names (tokens s))"
  then obtain x where "tag_attrs (set_prop tg ''line'' (line s)) s = Inl (DuplicateAttribute x)"
    using tag_duplicate [of "set_prop tg ''line'' (line s)" s] by blast
  then show ?thesis by (auto simp: with_fuel_Suc tag_body_def)
qed

lemma class_twice_example:
  "parse (n + 4) tags
     [tokv ''tag'' ''div'' 1,
      (new_token ''attrs'')\<lparr> tok_attrs :=
         [\<lparr> attr_name = ''class'', attr_val = JStr ''a'', attr_escaped = JBool True \<rparr>] \<rparr>,
      (new_token ''attrs'')\<lparr> tok_attrs :=
         [\<lparr> attr_name = ''class'', attr_val = JStr ''b'', attr_escaped = JBool True \<rparr>] \<rparr>,
      new_token ''eos''] fn
   = Inr (JObj [(''type'', JStr ''Block''),
        (''nodes'', JArr [JObj [(''type'', JStr ''Tag''), (''name'', JStr ''div''),
             (''block'', JObj [(''type'', JStr ''Block''), (''nodes'', JArr [])]),
             (''attrs'', JArr
                [JObj [(''name'', JStr ''class''), (''val'', JStr ''a''),
                       (''escaped'', JBool True)],
                 JObj [(''name'', JStr ''class''), (''val'', JStr ''b''),
                       (''escaped'', JBool True)]]),
             (''attributeBlocks'', JArr []),
             (''isInline'', JBool (index_of_found tags ''div'')),
             (''line'', JNum 1), (''filename'', JStr fn)]]),
        (''line'', JNum 0), (''filename'', JStr fn)])"
  by (simp add: parser_defs)

lemma id_twice_example:
  "parse (n + 4) tags
     [tokv ''tag'' ''div'' 1, tokv ''id'' ''x'' 1,
      (new_token ''attrs'')\<lparr> tok_attrs :=
         [\<lparr> attr_name = ''id'', attr_val = JStr ''y'', attr_escaped = JBool True \<rparr>] \<rparr>,
      new_token ''eos''] fn
   = Inl (DuplicateAttribute ''id'')"
  by (simp add: parser_defs)

text \<open>
  Claim C1, as the specification states it, says that the tokens
  \<^verbatim>\<open>[tag 'div', attrs [{class,'a'}], attrs [{class,'b'}]]\<close> parse into a Tag.  The
  stream as it is listed ends without an \<^verbatim>\<open>eos\<close> token: after the second \<^verbatim>\<open>attrs\<close>
  token the loop of \<^verbatim>\<open>tag\<close> looks at the next token, there is none, and the token
  stream throws.  This is the answer for every bound on the calls from 4 on.
\<close>

theorem class_twice_without_eos:
  "\<forall>n. parse (n + 4) []
        [tokv ''tag'' ''div'' 1,
         (new_token ''attrs'')\<lparr> tok_attrs :=
            [\<lparr> attr_name = ''class'', attr_val = JStr ''a'', attr_escaped = JBool True \<rparr>] \<rparr>,
         (new_token ''attrs'')\<lparr> tok_attrs :=
            [\<lparr> attr_name = ''class'', attr_val = JStr ''b'', attr_escaped = JBool True \<rparr>] \<rparr>]
        ''a.jade''
      = Inl StreamEnd"
  by (simp add: parser_defs)

text \<open>
  Claim C1, amended.  \<open>attribute_names\<close> lists the names that the attribute loop of \<^verbatim>\<open>tag\<close>
  records: \<^verbatim>\<open>id\<close> for each \<^verbatim>\<open>#id\<close> shorthand token and every name but
  \<^verbatim>\<open>class\<close> of the entries of each \<^verbatim>\<open>attrs\<close> token, over all the attribute
  tokens that follow the tag.  The loop raises \<open>DuplicateAttribute\<close> if and only if a
  name occurs twice in that list, and then \<^verbatim>\<open>tag\<close> raises it.  So
  \<^verbatim>\<open>[tag 'div', id 'x', attrs [{id,'y'}]]\<close> fails with the duplicate \<^verbatim>\<open>id\<close>, and
  \<^verbatim>\<open>[tag 'div', attrs [{class,'a'}], attrs [{class,'b'}]]\<close> parses into a Tag whose
  \<^verbatim>\<open>attrs\<close> are the two class entries in the order of the source, when each
  stream is closed by the \<^verbatim>\<open>eos\<close> token with which the lexer ends every stream.
\<close>

theorem duplicate_attributes:
  "((\<exists>x. tag_attrs tg s = Inl (DuplicateAttribute x))
      \<longleftrightarrow> \<not> distinct (attribute_names (tokens s)))
   \<and> (\<not> distinct (attribute_names (tokens s)) \<longrightarrow>
        (\<exists>x. tag (with_fuel (Suc k)) tg s = Inl (DuplicateAttribute x)))
   \<and> parse (n + 4) tags
        [tokv ''tag'' ''div'' 1, tokv ''id'' ''x'' 1,
         (new_token ''attrs'')\<lparr> tok_attrs :=
            [\<lparr> attr_name = ''id'', attr_val = JStr ''y'', attr_escaped = JBool True \<rparr>] \<rparr>,
         new_token ''eos''] fn
       = Inl (DuplicateAttribute ''id'')
   \<and> parse (n + 4) tags
        [tokv ''tag'' ''div'' 1,
         (new_token ''attrs'')\<lparr> tok_attrs :=
            [\<lparr> attr_name = ''class'', attr_val = JStr ''a'', attr_escaped = JBool True \<rparr>] \<rparr>,
         (new_token ''attrs'')\<lparr> tok_attrs :=
            [\<lparr> attr_name = ''class'', attr_val = JStr ''b'', attr_escaped = JBool True \<rparr>] \<rparr>,
         new_token ''eos''] fn
       = Inr (JObj [(''type'', JStr ''Block''),
           (''nodes'', JArr [JObj [(''type'', JStr ''Tag''), (''name'', JStr ''div''),
                (''block'', JObj [(''type'', JStr ''Block''), (''nodes'', JArr [])]),
                (''attrs'', JArr
                   [JObj [(''name'', JStr ''class''), (''val'', JStr ''a''),
                          (''escaped'', JBool True)],
                    JObj [(''name'', JStr ''class''), (''val'', JStr ''b''),
                          (''escaped'', JBool True)]]),
                (''attributeBlocks'', JArr []),
                (''isInline'', JBool (index_of_found tags ''div'')),
                (''line'', JNum 1), (''filename'', JStr fn)]]),
           (''line'', JNum 0), (''filename'', JStr fn)])"
  using tag_duplicate [of tg s] tag_raises_duplicate [of s k tg]
    id_twice_example [of n tags fn] class_twice_example [of n tags fn]
  by blast

theorem duplicate_attributes_witness:
  "(\<exists>x. tag (with_fuel 1) (JObj [(''attrs'', JArr [])])
          (Parser [] [tokv ''id'' ''x'' 1,
             (new_token ''attrs'')\<lparr> tok_attrs :=
                [\<lparr> attr_name = ''id'', attr_val = JStr ''y'', attr_escaped = JBool True \<rparr>] \<rparr>,
             new_token ''eos''] ''a.jade'')
        = Inl (DuplicateAttribute x))
   \<and> (\<exists>x. tag (with_fuel 1) (JObj [(''attrs'', JArr [])])
          (Parser [] [
             (new_token ''attrs'')\<lparr> tok_attrs :=
                [\<lparr> attr_name = ''href'', attr_val = JStr ''y'', attr_escaped = JBool True \<rparr>,
                 \<lparr> attr_name = ''class'', attr_val = JStr ''c'', attr_escaped = JBool True \<rparr>] \<rparr>,
             (new_token ''attrs'')\<lparr> tok_attrs :=
                [\<lparr> attr_name = ''class'', attr_val = JStr ''d'', attr_escaped = JBool True \<rparr>,
                 \<lparr> attr_name = ''href'', attr_val = JStr ''z'', attr_escaped = JBool True \<rparr>] \<rparr>,
             new_token ''eos''] ''a.jade'')
        = Inl (DuplicateAttribute x))"
proof -
  let ?tg = "JObj [(''attrs'', JArr [])]"
  let ?s1 = "Parser [] [tokv ''id'' ''x'' 1,
             (new_token ''attrs'')\<lparr> tok_attrs :=
                [\<lparr> attr_name = ''id'', attr_val = JStr ''y'', attr_escaped = JBool True \<rparr>] \<rparr>,
             new_token ''eos''] ''a.jade''"
  let ?s2 = "Parser [] [
             (new_token ''attrs'')\<lparr> tok_attrs :=
                [\<lparr> attr_name = ''href'', attr_val = JStr ''y'', attr_escaped = JBool True \<rparr>,
                 \<lparr> attr_name = ''class'', attr_val = JStr ''c'', attr_escaped = JBool True \<rparr>] \<rparr>,
             (new_token ''attrs'')\<lparr> tok_attrs :=
                [\<lparr> attr_name = ''class'', attr_val = JStr ''d'', attr_escaped = JBool True \<rparr>,
                 \<lparr> attr_name = ''href'', attr_val = JStr ''z'', attr_escaped = JBool True \<rparr>] \<rparr>,
             new_token ''eos''] ''a.jade''"
  have d1: "\<not> distinct (attribute_names (tokens ?s1))"
    by (simp add: Parser_def tokv_def new_token_def)
  have d2: "\<not> distinct (attribute_names (tokens ?s2))"
    by (simp add: Parser_def tokv_def new_token_def)
  from duplicate_attributes [where tg = ?tg and s = ?s1 and k = 0] d1
  have 1: "\<exists>x. tag (with_fuel (Suc 0)) ?tg ?s1 = Inl (DuplicateAttribute x)" by blast
  from duplicate_attributes [where tg = ?tg and s = ?s2 and k = 0] d2
  have 2: "\<exists>x. tag (with_fuel (Suc 0)) ?tg ?s2 = Inl (DuplicateAttribute x)" by blast
  from 1 2 show ?thesis unfolding One_nat_def by blast
qed

section \<open>The link from an if to its else\<close>

lemma mark_else_not_if: "\<not> tok_isIf t \<Longrightarrow> mark_else t s = Inr ((), s)"
  by (simp add: mark_else_def)

lemma mark_else_tokens:
  assumes "mark_else t s = Inr (u, s')" "tok_isIf t"
  shows "\<exists>x r. tokens s = x # r \<and>
     tokens s' =
       (if tok_isElse x then x\<lparr> tok_hasIf := True \<rparr> # r
        else if tok_type x = ''newline'' \<and> r \<noteq> [] \<and> tok_isElse (hd r)
          then x # (hd r)\<lparr> tok_hasIf := True \<rparr> # tl r
        else x # r)"
proof (cases "tokens s")
  case Nil
  with assms show ?thesis by (simp add: mark_else_def peek_def)
next
  case (Cons x r)
  show ?thesis
  proof (cases r)
    case Nil
    with Cons assms show ?thesis
      by (auto simp: mark_else_def peek_def lookahead_def set_hasIf_def split: if_splits)
  next
    case (Cons y r')
    with \<open>tokens s = x # r\<close> assms show ?thesis
      by (auto simp: mark_else_def peek_def lookahead_def set_hasIf_def split: if_splits)
  qed
qed

lemma mark_else_next:
  assumes "mark_else t s = Inr (u, s')" "tok_isIf t" "tokens s' = x # r" "tok_isElse x"
  shows "tok_hasIf x"
proof -
  from mark_else_tokens [OF assms(1,2)] obtain x0 r0 where
    "tokens s = x0 # r0" and
    t': "tokens s' =
       (if tok_isElse x0 then x0\<lparr> tok_hasIf := True \<rparr> # r0
        else if tok_type x0 = ''newline'' \<and> r0 \<noteq> [] \<and> tok_isElse (hd r0)
          then x0 # (hd r0)\<lparr> tok_hasIf := True \<rparr> # tl r0
        else x0 # r0)" by blast
  show ?thesis
  proof (cases "tok_isElse x0")
    case True
    with t' assms(3) show ?thesis by auto
  next
    case False
    with t' assms(3) have "x = x0" by (auto split: if_splits)
    with False assms(4) show ?thesis by simp
  qed
qed

lemma mark_else_after_newline:
  assumes "mark_else t s = Inr (u, s')" "tok_isIf t" "tokens s' = nl # x # r"
    "tok_type nl = ''newline''" "\<not> tok_isElse nl" "tok_isElse x"
  shows "tok_hasIf x"
proof -
  from mark_else_tokens [OF assms(1,2)] obtain x0 r0 where
    "tokens s = x0 # r0" and
    t': "tokens s' =
       (if tok_isElse x0 then x0\<lparr> tok_hasIf := True \<rparr> # r0
        else if tok_type x0 = ''newline'' \<and> r0 \<noteq> [] \<and> tok_isElse (hd r0)
          then x0 # (hd r0)\<lparr> tok_hasIf := True \<rparr> # tl r0
        else x0 # r0)" by blast
  show ?thesis
  proof (cases "tok_isElse x0")
    case True
    with t' assms(3) have "nl = x0\<lparr> tok_hasIf := True \<rparr>" by simp
    with True assms(5) show ?thesis by simp
  next
    case False
    note nelse = this
    show ?thesis
    proof (cases "tok_type x0 = ''newline'' \<and> r0 \<noteq> [] \<and> tok_isElse (hd r0)")
      case True
      with nelse t' assms(3) have "x = (hd r0)\<lparr> tok_hasIf := True \<rparr>" by simp
      then show ?thesis by simp
    next
      case False
      with nelse t' assms(3) have "nl = x0" "r0 = x # r" by simp_all
      with False assms(4,6) show ?thesis by simp
    qed
  qed
qed

lemma parseCode_ends_with_mark_else:
  assumes "parseCode (with_fuel k) s = Inr (node, s')" "tokens s = t # ts"
  shows "\<exists>s3 u. mark_else t s3 = Inr (u, s')"
proof (cases k)
  case 0
  with assms show ?thesis by (simp add: with_fuel_0)
next
  case (Suc m)
  with assms show ?thesis
    by (auto simp: with_fuel_Suc parseCode_body_def expect_def peek_def advance_def Let_def
          and_then_Inr split: if_splits list.splits)
qed

lemma parseCode_links_else:
  assumes "parseCode (with_fuel k) s = Inr (node, s')" "tokens s = t # ts" "tok_isIf t"
  shows "(tokens s' = x # r \<and> tok_isElse x \<longrightarrow> tok_hasIf x)
       \<and> (tokens s' = nl # y # r' \<and> tok_type nl = ''newline'' \<and> \<not> tok_isElse nl \<and> tok_isElse y
            \<longrightarrow> tok_hasIf y)"
proof -
  from parseCode_ends_with_mark_else [OF assms(1,2)]
  obtain s3 u where m: "mark_else t s3 = Inr (u, s')" by blast
  show ?thesis
    using mark_else_next [OF m assms(3)] mark_else_after_newline [OF m assms(3)] by blast
qed

lemma if_else_example:
  "parse (n + 7) tags
     [(tokv ''code'' ''if x'' 1)\<lparr> tok_isIf := True \<rparr>, new_token ''indent'',
      tokv ''code'' ''y'' 2, new_token ''outdent'',
      (tokv ''code'' ''else'' 3)\<lparr> tok_isElse := True \<rparr>, new_token ''eos''] fn
   = Inr (JObj [(''type'', JStr ''Block''),
        (''nodes'', JArr
          [JObj [(''type'', JStr ''Code''), (''val'', JStr ''if x''), (''line'', JNum 1),
                 (''block'', JObj [(''type'', JStr ''Block''),
                    (''nodes'', JArr [JObj [(''type'', JStr ''Code''), (''val'', JStr ''y''),
                                            (''filename'', JStr fn)]]),
                    (''filename'', JStr fn)]),
                 (''filename'', JStr fn)],
           JObj [(''type'', JStr ''Code''), (''val'', JStr ''else''),
                 (''debug'', JBool False), (''line'', JNum 3), (''filename'', JStr fn)]]),
        (''line'', JNum 0), (''filename'', JStr fn)])"
  by (simp add: parser_defs)

lemma if_newline_else_example:
  "parse (n + 7) tags
     [(tokv ''code'' ''if x'' 1)\<lparr> tok_isIf := True \<rparr>, new_token ''indent'',
      tokv ''code'' ''y'' 2, new_token ''outdent'', new_token ''newline'',
      (tokv ''code'' ''else'' 3)\<lparr> tok_isElse := True \<rparr>, new_token ''eos''] fn
   = Inr (JObj [(''type'', JStr ''Block''),
        (''nodes'', JArr
          [JObj [(''type'', JStr ''Code''), (''val'', JStr ''if x''), (''line'', JNum 1),
                 (''block'', JObj [(''type'', JStr ''Block''),
                    (''nodes'', JArr [JObj [(''type'', JStr ''Code''), (''val'', JStr ''y''),
                                            (''filename'', JStr fn)]]),
                    (''filename'', JStr fn)]),
                 (''filename'', JStr fn)],
           JObj [(''type'', JStr ''Code''), (''val'', JStr ''else''),
                 (''debug'', JBool False), (''line'', JNum 3), (''filename'', JStr fn)]]),
        (''line'', JNum 0), (''filename'', JStr fn)])"
  by (simp add: parser_defs)

text \<open>
  Claim C2, as the specification states it, says that the tokens
  \<^verbatim>\<open>[code('if x', isIf), indent, code('y'), outdent, code('else', isElse)]\<close> parse
  into two Code nodes.  The stream as it is listed ends without an \<^verbatim>\<open>eos\<close> token:
  \<^verbatim>\<open>parseCode\<close> consumes the \<^verbatim>\<open>else\<close> token and looks at the next token for a
  block, there is none, and the token stream throws.  This is the answer for every bound
  on the calls from 7 on.
\<close>

theorem if_else_without_eos:
  "\<forall>n. parse (n + 7) []
        [(tokv ''code'' ''if x'' 1)\<lparr> tok_isIf := True \<rparr>, new_token ''indent'',
         tokv ''code'' ''y'' 2, new_token ''outdent'',
         (tokv ''code'' ''else'' 3)\<lparr> tok_isElse := True \<rparr>] ''a.jade''
      = Inl StreamEnd"
  by (simp add: parser_defs)

text \<open>
  Claim C2, amended.  When \<^verbatim>\<open>parseCode\<close> has consumed a token flagged \<^verbatim>\<open>isIf\<close> and
  returns, the stream it leaves is such that a next token flagged \<^verbatim>\<open>isElse\<close> carries
  \<^verbatim>\<open>hasIf\<close>, and so does a token flagged \<^verbatim>\<open>isElse\<close> that stands behind a next
  \<^verbatim>\<open>newline\<close> token (a \<^verbatim>\<open>newline\<close> token is not itself flagged \<^verbatim>\<open>isElse\<close>: the
  lexer flags \<^verbatim>\<open>code\<close> tokens only).  The token is marked while it is still in the
  stream.  So \<^verbatim>\<open>[code('if x', isIf), indent, code('y'), outdent, code('else',
  isElse)]\<close>, closed by the \<^verbatim>\<open>eos\<close> token with which the lexer ends every
  stream, parses into two Code nodes, the second without a
  block, and so does the same stream with a \<^verbatim>\<open>newline\<close> before the \<^verbatim>\<open>else\<close>.
\<close>

theorem if_links_else:
  "(parseCode (with_fuel k) s = Inr (node, s') \<and> tokens s = t # ts \<and> tok_isIf t \<longrightarrow>
      (tokens s' = x # r \<and> tok_isElse x \<longrightarrow> tok_hasIf x)
      \<and> (tokens s' = nl # y # r' \<and> tok_type nl = ''newline'' \<and> \<not> tok_isElse nl
           \<and> tok_isElse y \<longrightarrow> tok_hasIf y))
   \<and> parse (n + 7) tags
       [(tokv ''code'' ''if x'' 1)\<lparr> tok_isIf := True \<rparr>, new_token ''indent'',
        tokv ''code'' ''y'' 2, new_token ''outdent'',
        (tokv ''code'' ''else'' 3)\<lparr> tok_isElse := True \<rparr>, new_token ''eos''] fn
     = Inr (JObj [(''type'', JStr ''Block''),
        (''nodes'', JArr
          [JObj [(''type'', JStr ''Code''), (''val'', JStr ''if x''), (''line'', JNum 1),
                 (''block'', JObj [(''type'', JStr ''Block''),
                    (''nodes'', JArr [JObj [(''type'', JStr ''Code''), (''val'', JStr ''y''),
                                            (''filename'', JStr fn)]]),
                    (''filename'', JStr fn)]),
                 (''filename'', JStr fn)],
           JObj [(''type'', JStr ''Code''), (''val'', JStr ''else''),
                 (''debug'', JBool False), (''line'', JNum 3), (''filename'', JStr fn)]]),
        (''line'', JNum 0), (''filename'', JStr fn)])
   \<and> parse (n + 7) tags
       [(tokv ''code'' ''if x'' 1)\<lparr> tok_isIf := True \<rparr>, new_token ''indent'',
        tokv ''code'' ''y'' 2, new_token ''outdent'', new_token ''newline'',
        (tokv ''code'' ''else'' 3)\<lparr> tok_isElse := True \<rparr>, new_token ''eos''] fn
     = Inr (JObj [(''type'', JStr ''Block''),
        (''nodes'', JArr
          [JObj [(''type'', JStr ''Code''), (''val'', JStr ''if x''), (''line'', JNum 1),
                 (''block'', JObj [(''type'', JStr ''Block''),
                    (''nodes'', JArr [JObj [(''type'', JStr ''Code''), (''val'', JStr ''y''),
                                            (''filename'', JStr fn)]]),
                    (''filename'', JStr fn)]),
                 (''filename'', JStr fn)],
           JObj [(''type'', JStr ''Code''), (''val'', JStr ''else''),
                 (''debug'', JBool False), (''line'', JNum 3), (''filename'', JStr fn)]]),
        (''line'', JNum 0), (''filename'', JStr fn)])"
  using parseCode_links_else [of k s node s' t ts x r nl y r']
    if_else_example [of n tags fn] if_newline_else_example [of n tags fn]
  by blast

theorem if_links_else_witness:
  "parseCode (with_fuel 1)
     (Parser [] [(tokv ''code'' ''if x'' 1)\<lparr> tok_isIf := True \<rparr>, new_token ''newline'',
                 (tokv ''code'' ''else'' 3)\<lparr> tok_isElse := True \<rparr>, new_token ''eos'']
        ''a.jade'')
   = Inr (JObj [(''type'', JStr ''Code''), (''val'', JStr ''if x''),
                (''buffer'', JUndefined), (''escape'', JUndefined), (''line'', JUndefined)],
          Parser [] [new_token ''newline'',
                     (tokv ''code'' ''else'' 3)\<lparr> tok_isElse := True, tok_hasIf := True \<rparr>,
                     new_token ''eos''] ''a.jade'')
   \<and> tok_hasIf ((tokv ''code'' ''else'' 3)\<lparr> tok_isElse := True, tok_hasIf := True \<rparr>)"
proof -
  let ?if = "(tokv ''code'' ''if x'' 1)\<lparr> tok_isIf := True \<rparr>"
  let ?else = "(tokv ''code'' ''else'' 3)\<lparr> tok_isElse := True \<rparr>"
  let ?else' = "(tokv ''code'' ''else'' 3)\<lparr> tok_isElse := True, tok_hasIf := True \<rparr>"
  let ?s = "Parser [] [?if, new_token ''newline'', ?else, new_token ''eos''] ''a.jade''"
  let ?s' = "Parser [] [new_token ''newline'', ?else', new_token ''eos''] ''a.jade''"
  let ?node = "JObj [(''type'', JStr ''Code''), (''val'', JStr ''if x''),
                (''buffer'', JUndefined), (''escape'', JUndefined), (''line'', JUndefined)]"
  have run: "parseCode (with_fuel 1) ?s = Inr (?node, ?s')"
    by (simp add: parser_defs)
  have pre: "tokens ?s = ?if # [new_token ''newline'', ?else, new_token ''eos'']
      \<and> tok_isIf ?if"
    by (simp add: Parser_def tokv_def new_token_def)
  have post: "tokens ?s' = new_token ''newline'' # ?else' # [new_token ''eos'']
      \<and> tok_type (new_token ''newline'') = ''newline''
      \<and> \<not> tok_isElse (new_token ''newline'') \<and> tok_isElse ?else'"
    by (simp add: Parser_def tokv_def new_token_def)
  note a = if_links_else [where k = 1 and s = ?s and node = ?node and s' = ?s' and t = ?if
      and ts = "[new_token ''newline'', ?else, new_token ''eos'']"
      and nl = "new_token ''newline''" and y = ?else' and r' = "[new_token ''eos'']"]
  from a run pre post have "tok_hasIf ?else'" by blast
  with run show ?thesis by blast
qed

section \<open>The parser comes to an end\<close>

text \<open>
  Every routine consumes a token between two calls of itself, but for \<^verbatim>\<open>parseExpr\<close>
  on an \<^verbatim>\<open>id\<close> or \<^verbatim>\<open>class\<close> token, where \<^verbatim>\<open>tag\<close> consumes that token three
  calls further down.  So a depth of calls of 8 for each token of the stream, and 8
  more, is enough for the parser to answer with a tree or with one of its errors.
\<close>

lemma finishes_Inr [simp]: "finishes (Inr (v, s)) Q = Q v s"
  by (simp add: finishes_def)

lemma finishes_Inl [simp]: "finishes (Inl e) Q = (e \<noteq> OutOfFuel)"
  by (simp add: finishes_def)

lemma finishes_and_then:
  "finishes (and_then m f) Q = finishes m (\<lambda>v s. finishes (f v s) Q)"
  by (cases m) (auto simp: finishes_def)

lemma finishes_mono:
  "finishes m P \<Longrightarrow> (\<And>v s. P v s \<Longrightarrow> Q v s) \<Longrightarrow> finishes m Q"
  by (cases m) (auto simp: finishes_def)

lemma finishes_peek:
  "finishes (peek s) Q = (\<forall>t ts. tokens s = t # ts \<longrightarrow> Q t s)"
  by (simp add: peek_def split: list.splits)

lemma finishes_advance:
  "finishes (advance s) Q = (\<forall>t ts. tokens s = t # ts \<longrightarrow> Q t (s\<lparr> tokens := ts \<rparr>))"
  by (simp add: advance_def split: list.splits)

lemma finishes_expect:
  "finishes (expect ty s) Q
   = (\<forall>t ts. tokens s = t # ts \<longrightarrow> tok_type t = ty \<longrightarrow> Q t (s\<lparr> tokens := ts \<rparr>))"
  by (auto simp: expect_def peek_def advance_def split: list.splits)

lemma finishes_accept:
  "finishes (accept ty s) Q
   = (\<forall>t ts. tokens s = t # ts \<longrightarrow>
        (if tok_type t = ty then Q (Some t) (s\<lparr> tokens := ts \<rparr>) else Q None s))"
  by (auto simp: accept_def peek_def advance_def split: list.splits)

lemma finishes_lookahead:
  "finishes (lookahead n s) Q = (n < length (tokens s) \<longrightarrow> Q (tokens s ! n) s)"
  by (auto simp: lookahead_def)

lemmas finishes_simps =
  finishes_and_then finishes_peek finishes_advance finishes_expect finishes_accept
  finishes_lookahead shorter_def no_longer_def shorter_at_def Let_def

lemma finishes_mark_else:
  "(\<And>s'. length (tokens s') = length (tokens s) \<Longrightarrow> Q () s') \<Longrightarrow> finishes (mark_else tok s) Q"
  by (auto simp: mark_else_def finishes_simps set_hasIf_def)

lemma rest_tag_le: "rest_tag ts \<le> length ts"
  by (cases ts) auto

lemma tag_attrs_entries_fuel: "tag_attrs_entries tg names as \<noteq> Inl OutOfFuel"
  by (induction tg names as rule: tag_attrs_entries.induct) auto

lemma tag_attrs_loop_fuel:
  "tag_attrs_loop fn tg seen names ws ts = Inl e \<Longrightarrow> e \<noteq> OutOfFuel"
proof (induction fn tg seen names ws ts rule: tag_attrs_loop.induct)
  case (1 fn tg seen names ws)
  then show ?case by auto
next
  case (2 fn tg seen names ws t ts)
  show ?case
  proof (cases "tok_type t = ''id'' \<or> tok_type t = ''class''")
    case True
    with 2 show ?thesis by (auto split: if_splits)
  next
    case False
    note nid = this
    show ?thesis
    proof (cases "tok_type t = ''attrs''")
      case True
      with 2 nid show ?thesis
        using tag_attrs_entries_fuel by (auto split: if_splits sum.splits)
    next
      case False
      with 2 nid show ?thesis by (auto split: if_splits)
    qed
  qed
qed

lemma tag_attrs_loop_length:
  "tag_attrs_loop fn tg seen names ws ts = Inr (tg', ws', ts') \<Longrightarrow> length ts' \<le> length ts"
proof (induction fn tg seen names ws ts rule: tag_attrs_loop.induct)
  case (1 fn tg seen names ws)
  then show ?case by auto
next
  case (2 fn tg seen names ws t ts)
  show ?case
  proof (cases "tok_type t = ''id'' \<or> tok_type t = ''class''")
    case True
    with 2 show ?thesis by (auto split: if_splits)
  next
    case False
    note nid = this
    show ?thesis
    proof (cases "tok_type t = ''attrs''")
      case True
      note at = this
      from "2.prems" nid at obtain tg1 names1 where
        en: "tag_attrs_entries
               (if truthy (tok_selfClosing t) then set_prop tg ''selfClosing'' (JBool True)
                else tg) names (tok_attrs t) = Inr (tg1, names1)"
        and lp: "tag_attrs_loop fn tg1 True names1
               (if seen then ws @ [MultipleAttributes fn (tok_line t)] else ws) ts
             = Inr (tg', ws', ts')"
        by (auto split: sum.splits)
      from "2.IH"(2) [OF nid at en refl lp] show ?thesis by simp
    next
      case False
      with 2 nid show ?thesis by (auto split: if_splits)
    qed
  qed
qed

lemma tag_attrs_loop_rest:
  assumes "tag_attrs_loop fn tg seen names ws ts = Inr (tg', ws', ts')"
  shows "length ts' \<le> rest_tag ts"
proof (cases ts)
  case Nil
  with assms show ?thesis by simp
next
  case (Cons t us)
  show ?thesis
  proof (cases "tok_type t = ''id'' \<or> tok_type t = ''class''")
    case True
    with assms Cons show ?thesis
      by (auto split: if_splits dest: tag_attrs_loop_length)
  next
    case False
    from tag_attrs_loop_length [OF assms] have "length ts' \<le> length ts" .
    with False Cons show ?thesis by simp
  qed
qed

lemma finishes_tag_attrs:
  assumes "\<And>tg' s'. length (tokens s') \<le> length (tokens s) \<Longrightarrow>
      length (tokens s') \<le> rest_tag (tokens s) \<Longrightarrow> Q tg' s'"
  shows "finishes (tag_attrs tg s) Q"
proof (cases "tag_attrs_loop (filename s) tg False [] (console s) (tokens s)")
  case (Inl e)
  with tag_attrs_loop_fuel [OF Inl] show ?thesis by (simp add: tag_attrs_def)
next
  case (Inr x)
  obtain tg' ws' ts' where x: "x = (tg', ws', ts')" by (cases x) auto
  from Inr x tag_attrs_loop_length tag_attrs_loop_rest
  have "length ts' \<le> length (tokens s)" "length ts' \<le> rest_tag (tokens s)" by blast+
  then have "Q tg' (s\<lparr> tokens := ts', console := ws' \<rparr>)" by (intro assms) simp_all
  with Inr x show ?thesis by (simp add: tag_attrs_def)
qed

lemma skip_newlines_loop_fuel: "skip_newlines_loop ts = Inl e \<Longrightarrow> e \<noteq> OutOfFuel"
  by (induction ts) (auto split: if_splits)

lemma skip_newlines_loop_length: "skip_newlines_loop ts = Inr ts' \<Longrightarrow> length ts' \<le> length ts"
  by (induction ts) (auto split: if_splits)

lemma finishes_skip_newlines:
  assumes "\<And>s'. length (tokens s') \<le> length (tokens s) \<Longrightarrow> Q () s'"
  shows "finishes (skip_newlines s) Q"
proof (cases "skip_newlines_loop (tokens s)")
  case (Inl e)
  with skip_newlines_loop_fuel [OF Inl] show ?thesis by (simp add: skip_newlines_def)
next
  case (Inr ts')
  from skip_newlines_loop_length [OF Inr] have "Q () (s\<lparr> tokens := ts' \<rparr>)"
    by (intro assms) simp
  with Inr show ?thesis by (simp add: skip_newlines_def)
qed


lemma fuel_expr_le: "fuel_expr ts \<le> 8 * length ts + 6"
  by (cases ts) auto

lemma call_parseExpr:
  assumes "routines_finish n r" and "fuel_expr (tokens s) \<le> n"
    and "\<And>v s'. shorter s s' \<and> length (tokens s') \<le> rest_expr (tokens s) \<Longrightarrow> Q v s'"
  shows "finishes (parseExpr r s) Q"
proof (rule finishes_mono)
  show "finishes (parseExpr r s)
    (\<lambda>v s'. shorter s s' \<and> length (tokens s') \<le> rest_expr (tokens s))"
    using assms(1,2) unfolding routines_finish_def by simp
qed (rule assms(3))

lemma call_parseText:
  assumes "routines_finish n r" and "8 * length (tokens s) + 2 \<le> n"
    and "\<And>v s'. shorter_at [''text'', ''start-jade-interpolation''] s s' \<Longrightarrow> Q v s'"
  shows "finishes (parseText r ob s) Q"
proof (rule finishes_mono)
  show "finishes (parseText r ob s)
    (\<lambda>v. shorter_at [''text'', ''start-jade-interpolation''] s)"
    using assms(1,2) unfolding routines_finish_def by simp
qed (rule assms(3))

lemma call_parseText_loop:
  assumes "routines_finish n r" and "8 * length (tokens s) + 1 \<le> n"
    and "\<And>v s'. shorter_at [''text'', ''start-jade-interpolation''] s s' \<Longrightarrow> Q v s'"
  shows "finishes (parseText_loop r ob tags s) Q"
proof (rule finishes_mono)
  show "finishes (parseText_loop r ob tags s)
    (\<lambda>v. shorter_at [''text'', ''start-jade-interpolation''] s)"
    using assms(1,2) unfolding routines_finish_def by simp
qed (rule assms(3))

lemma call_parseTextHtml:
  assumes "routines_finish n r" and "8 * length (tokens s) + 2 \<le> n"
    and "\<And>v s'. shorter_at [''text-html''] s s' \<Longrightarrow> Q v s'"
  shows "finishes (parseTextHtml r s) Q"
proof (rule finishes_mono)
  show "finishes (parseTextHtml r s)
    (\<lambda>v. shorter_at [''text-html''] s)"
    using assms(1,2) unfolding routines_finish_def by simp
qed (rule assms(3))

lemma call_parseTextHtml_loop:
  assumes "routines_finish n r" and "8 * length (tokens s) + 1 \<le> n"
    and "\<And>v s'. shorter_at [''text-html''] s s' \<Longrightarrow> Q v s'"
  shows "finishes (parseTextHtml_loop r st s) Q"
proof (rule finishes_mono)
  show "finishes (parseTextHtml_loop r st s)
    (\<lambda>v. shorter_at [''text-html''] s)"
    using assms(1,2) unfolding routines_finish_def by (cases st) simp
qed (rule assms(3))

lemma call_parseBlockExpansion:
  assumes "routines_finish n r" and "8 * length (tokens s) + 2 \<le> n"
    and "\<And>v s'. no_longer s s' \<Longrightarrow> Q v s'"
  shows "finishes (parseBlockExpansion r s) Q"
proof (rule finishes_mono)
  show "finishes (parseBlockExpansion r s)
    (\<lambda>v. no_longer s)"
    using assms(1,2) unfolding routines_finish_def by simp
qed (rule assms(3))

lemma call_parseCase:
  assumes "routines_finish n r" and "8 * length (tokens s) + 1 \<le> n"
    and "\<And>v s'. shorter s s' \<Longrightarrow> Q v s'"
  shows "finishes (parseCase r s) Q"
proof (rule finishes_mono)
  show "finishes (parseCase r s)
    (\<lambda>v. shorter s)"
    using assms(1,2) unfolding routines_finish_def by simp
qed (rule assms(3))

lemma call_parseCase_loop:
  assumes "routines_finish n r" and "8 * length (tokens s) + 2 \<le> n"
    and "\<And>v s'. no_longer s s' \<Longrightarrow> Q v s'"
  shows "finishes (parseCase_loop r b s) Q"
proof (rule finishes_mono)
  show "finishes (parseCase_loop r b s)
    (\<lambda>v. no_longer s)"
    using assms(1,2) unfolding routines_finish_def by simp
qed (rule assms(3))

lemma call_parseWhen:
  assumes "routines_finish n r" and "8 * length (tokens s) + 1 \<le> n"
    and "\<And>v s'. shorter s s' \<Longrightarrow> Q v s'"
  shows "finishes (parseWhen r s) Q"
proof (rule finishes_mono)
  show "finishes (parseWhen r s)
    (\<lambda>v. shorter s)"
    using assms(1,2) unfolding routines_finish_def by simp
qed (rule assms(3))

lemma call_parseDefault:
  assumes "routines_finish n r" and "8 * length (tokens s) + 1 \<le> n"
    and "\<And>v s'. shorter s s' \<Longrightarrow> Q v s'"
  shows "finishes (parseDefault r s) Q"
proof (rule finishes_mono)
  show "finishes (parseDefault r s)
    (\<lambda>v. shorter s)"
    using assms(1,2) unfolding routines_finish_def by simp
qed (rule assms(3))

lemma call_parseCode:
  assumes "routines_finish n r" and "8 * length (tokens s) + 1 \<le> n"
    and "\<And>v s'. shorter s s' \<Longrightarrow> Q v s'"
  shows "finishes (parseCode r s) Q"
proof (rule finishes_mono)
  show "finishes (parseCode r s)
    (\<lambda>v. shorter s)"
    using assms(1,2) unfolding routines_finish_def by simp
qed (rule assms(3))

lemma call_parseComment:
  assumes "routines_finish n r" and "8 * length (tokens s) + 1 \<le> n"
    and "\<And>v s'. shorter s s' \<Longrightarrow> Q v s'"
  shows "finishes (parseComment r s) Q"
proof (rule finishes_mono)
  show "finishes (parseComment r s)
    (\<lambda>v. shorter s)"
    using assms(1,2) unfolding routines_finish_def by simp
qed (rule assms(3))

lemma call_parseFilter:
  assumes "routines_finish n r" and "8 * length (tokens s) + 1 \<le> n"
    and "\<And>v s'. shorter s s' \<Longrightarrow> Q v s'"
  shows "finishes (parseFilter r s) Q"
proof (rule finishes_mono)
  show "finishes (parseFilter r s)
    (\<lambda>v. shorter s)"
    using assms(1,2) unfolding routines_finish_def by simp
qed (rule assms(3))

lemma call_parseEach:
  assumes "routines_finish n r" and "8 * length (tokens s) + 1 \<le> n"
    and "\<And>v s'. shorter s s' \<Longrightarrow> Q v s'"
  shows "finishes (parseEach r s) Q"
proof (rule finishes_mono)
  show "finishes (parseEach r s)
    (\<lambda>v. shorter s)"
    using assms(1,2) unfolding routines_finish_def by simp
qed (rule assms(3))

lemma call_parseBlock:
  assumes "routines_finish n r" and "8 * length (tokens s) + 1 \<le> n"
    and "\<And>v s'. shorter s s' \<Longrightarrow> Q v s'"
  shows "finishes (parseBlock r s) Q"
proof (rule finishes_mono)
  show "finishes (parseBlock r s)
    (\<lambda>v. shorter s)"
    using assms(1,2) unfolding routines_finish_def by simp
qed (rule assms(3))

lemma call_parseInclude:
  assumes "routines_finish n r" and "8 * length (tokens s) + 1 \<le> n"
    and "\<And>v s'. shorter s s' \<Longrightarrow> Q v s'"
  shows "finishes (parseInclude r s) Q"
proof (rule finishes_mono)
  show "finishes (parseInclude r s)
    (\<lambda>v. shorter s)"
    using assms(1,2) unfolding routines_finish_def by simp
qed (rule assms(3))

lemma call_parseCall:
  assumes "routines_finish n r" and "8 * length (tokens s) + 1 \<le> n"
    and "\<And>v s'. shorter s s' \<Longrightarrow> Q v s'"
  shows "finishes (parseCall r s) Q"
proof (rule finishes_mono)
  show "finishes (parseCall r s)
    (\<lambda>v. shorter s)"
    using assms(1,2) unfolding routines_finish_def by simp
qed (rule assms(3))

lemma call_parseMixin:
  assumes "routines_finish n r" and "8 * length (tokens s) + 1 \<le> n"
    and "\<And>v s'. shorter s s' \<Longrightarrow> Q v s'"
  shows "finishes (parseMixin r s) Q"
proof (rule finishes_mono)
  show "finishes (parseMixin r s)
    (\<lambda>v. shorter s)"
    using assms(1,2) unfolding routines_finish_def by simp
qed (rule assms(3))

lemma call_parseTextBlock:
  assumes "routines_finish n r" and "8 * length (tokens s) + 1 \<le> n"
    and "\<And>v s'. no_longer s s' \<Longrightarrow> Q v s'"
  shows "finishes (parseTextBlock r s) Q"
proof (rule finishes_mono)
  show "finishes (parseTextBlock r s)
    (\<lambda>v. no_longer s)"
    using assms(1,2) unfolding routines_finish_def by simp
qed (rule assms(3))

lemma call_parseTextBlock_loop:
  assumes "routines_finish n r" and "8 * length (tokens s) + 1 \<le> n"
    and "\<And>v s'. no_longer s s' \<Longrightarrow> Q v s'"
  shows "finishes (parseTextBlock_loop r b s) Q"
proof (rule finishes_mono)
  show "finishes (parseTextBlock_loop r b s)
    (\<lambda>v. no_longer s)"
    using assms(1,2) unfolding routines_finish_def by simp
qed (rule assms(3))

lemma call_block:
  assumes "routines_finish n r" and "8 * length (tokens s) + 1 \<le> n"
    and "\<And>v s'. shorter s s' \<Longrightarrow> Q v s'"
  shows "finishes (block r s) Q"
proof (rule finishes_mono)
  show "finishes (block r s)
    (\<lambda>v. shorter s)"
    using assms(1,2) unfolding routines_finish_def by simp
qed (rule assms(3))

lemma call_block_loop:
  assumes "routines_finish n r" and "8 * length (tokens s) + 7 \<le> n"
    and "\<And>v s'. no_longer s s' \<Longrightarrow> Q v s'"
  shows "finishes (block_loop r b s) Q"
proof (rule finishes_mono)
  show "finishes (block_loop r b s)
    (\<lambda>v. no_longer s)"
    using assms(1,2) unfolding routines_finish_def by simp
qed (rule assms(3))

lemma call_parseInterpolation:
  assumes "routines_finish n r" and "8 * length (tokens s) + 1 \<le> n"
    and "\<And>v s'. shorter s s' \<Longrightarrow> Q v s'"
  shows "finishes (parseInterpolation r s) Q"
proof (rule finishes_mono)
  show "finishes (parseInterpolation r s)
    (\<lambda>v. shorter s)"
    using assms(1,2) unfolding routines_finish_def by simp
qed (rule assms(3))

lemma call_parseTag:
  assumes "routines_finish n r" and "8 * (length (tokens s) - 1) + 4 \<le> n"
    and "\<And>v s'. shorter s s' \<and> length (tokens s') \<le> rest_tag (tl (tokens s)) \<Longrightarrow> Q v s'"
  shows "finishes (parseTag r s) Q"
proof (rule finishes_mono)
  show "finishes (parseTag r s)
    (\<lambda>v s'. shorter s s' \<and> length (tokens s') \<le> rest_tag (tl (tokens s)))"
    using assms(1,2) unfolding routines_finish_def by simp
qed (rule assms(3))

lemma call_tag:
  assumes "routines_finish n r" and "8 * length (tokens s) + 3 \<le> n"
    and "\<And>v s'. no_longer s s' \<and> length (tokens s') \<le> rest_tag (tokens s) \<Longrightarrow> Q v s'"
  shows "finishes (tag r tg s) Q"
proof (rule finishes_mono)
  show "finishes (tag r tg s)
    (\<lambda>v s'. no_longer s s' \<and> length (tokens s') \<le> rest_tag (tokens s))"
    using assms(1,2) unfolding routines_finish_def by simp
qed (rule assms(3))


lemma call_parseExpr_coarse:
  assumes "routines_finish n r" and "8 * length (tokens s) + 6 \<le> n"
    and "\<And>v s'. length (tokens s') < length (tokens s) \<Longrightarrow> Q v s'"
  shows "finishes (parseExpr r s) Q"
proof (rule call_parseExpr [OF assms(1)])
  show "fuel_expr (tokens s) \<le> n" using assms(2) fuel_expr_le [of "tokens s"] by simp
qed (simp add: assms(3) shorter_def)

lemmas finishes_calls =
  call_parseExpr_coarse call_parseText call_parseText_loop call_parseTextHtml
  call_parseTextHtml_loop call_parseBlockExpansion call_parseCase call_parseCase_loop
  call_parseWhen call_parseDefault call_parseCode call_parseComment call_parseFilter
  call_parseEach call_parseBlock call_parseInclude call_parseCall call_parseMixin
  call_parseTextBlock call_parseTextBlock_loop call_block call_block_loop
  call_parseInterpolation call_tag

lemmas finishes_others = finishes_mark_else finishes_tag_attrs finishes_skip_newlines

lemma fin_parseExpr:
  assumes r: "routines_finish n r" and b: "fuel_expr (tokens s) \<le> Suc n"
  shows "finishes (parseExpr_body r s)
    (\<lambda>v s'. shorter s s' \<and> length (tokens s') \<le> rest_expr (tokens s))"
  unfolding parseExpr_body_def using b
  by (auto simp: finishes_simps defer_tok_def parseDoctype_def parseExtends_def
        parseMixinBlock_def new_token_def
        intro!: call_parseExpr [OF r] call_parseTag [OF r] finishes_calls(2-) [OF r])

lemma fin_parseText:
  assumes r: "routines_finish n r" and b: "8 * length (tokens s) + 2 \<le> Suc n"
  shows "finishes (parseText_body r ob s)
    (\<lambda>v. shorter_at [''text'', ''start-jade-interpolation''] s)"
  unfolding parseText_body_def using b
  by (auto simp: finishes_simps warn_def tag_dot_def tag_inline_def tag_block_def
        intro!: finishes_calls [OF r] finishes_others)

lemma fin_parseText_loop:
  assumes r: "routines_finish n r" and b: "8 * length (tokens s) + 1 \<le> Suc n"
  shows "finishes (parseText_loop_body r ob tags s)
    (\<lambda>v. shorter_at [''text'', ''start-jade-interpolation''] s)"
  unfolding parseText_loop_body_def using b
  by (auto simp: finishes_simps warn_def tag_dot_def tag_inline_def tag_block_def
        intro!: finishes_calls [OF r] finishes_others)

lemma fin_parseTextHtml:
  assumes r: "routines_finish n r" and b: "8 * length (tokens s) + 2 \<le> Suc n"
  shows "finishes (parseTextHtml_body r s)
    (\<lambda>v. shorter_at [''text-html''] s)"
  unfolding parseTextHtml_body_def using b
  by (auto simp: finishes_simps warn_def tag_dot_def tag_inline_def tag_block_def
        intro!: finishes_calls [OF r] finishes_others)

lemma fin_parseTextHtml_loop:
  assumes r: "routines_finish n r" and b: "8 * length (tokens s) + 1 \<le> Suc n"
  shows "finishes (parseTextHtml_loop_body r st s)
    (\<lambda>v. shorter_at [''text-html''] s)"
  unfolding parseTextHtml_loop_body_def using b
  by (auto simp: finishes_simps warn_def tag_dot_def tag_inline_def tag_block_def
        intro!: finishes_calls [OF r] finishes_others)

lemma fin_parseBlockExpansion:
  assumes r: "routines_finish n r" and b: "8 * length (tokens s) + 2 \<le> Suc n"
  shows "finishes (parseBlockExpansion_body r s)
    (\<lambda>v. no_longer s)"
  unfolding parseBlockExpansion_body_def using b
  by (auto simp: finishes_simps warn_def tag_dot_def tag_inline_def tag_block_def
        intro!: finishes_calls [OF r] finishes_others)

lemma fin_parseCase:
  assumes r: "routines_finish n r" and b: "8 * length (tokens s) + 1 \<le> Suc n"
  shows "finishes (parseCase_body r s)
    (\<lambda>v. shorter s)"
  unfolding parseCase_body_def using b
  by (auto simp: finishes_simps warn_def tag_dot_def tag_inline_def tag_block_def
        intro!: finishes_calls [OF r] finishes_others)

lemma fin_parseCase_loop:
  assumes r: "routines_finish n r" and b: "8 * length (tokens s) + 2 \<le> Suc n"
  shows "finishes (parseCase_loop_body r b s)
    (\<lambda>v. no_longer s)"
  unfolding parseCase_loop_body_def using b
  by (auto simp: finishes_simps warn_def tag_dot_def tag_inline_def tag_block_def
        intro!: finishes_calls [OF r] finishes_others)

lemma fin_parseWhen:
  assumes r: "routines_finish n r" and b: "8 * length (tokens s) + 1 \<le> Suc n"
  shows "finishes (parseWhen_body r s)
    (\<lambda>v. shorter s)"
  unfolding parseWhen_body_def using b
  by (auto simp: finishes_simps warn_def tag_dot_def tag_inline_def tag_block_def
        intro!: finishes_calls [OF r] finishes_others)

lemma fin_parseDefault:
  assumes r: "routines_finish n r" and b: "8 * length (tokens s) + 1 \<le> Suc n"
  shows "finishes (parseDefault_body r s)
    (\<lambda>v. shorter s)"
  unfolding parseDefault_body_def using b
  by (auto simp: finishes_simps warn_def tag_dot_def tag_inline_def tag_block_def
        intro!: finishes_calls [OF r] finishes_others)

lemma fin_parseCode:
  assumes r: "routines_finish n r" and b: "8 * length (tokens s) + 1 \<le> Suc n"
  shows "finishes (parseCode_body r s)
    (\<lambda>v. shorter s)"
  unfolding parseCode_body_def using b
  by (auto simp: finishes_simps warn_def tag_dot_def tag_inline_def tag_block_def
        intro!: finishes_calls [OF r] finishes_others)

lemma fin_parseComment:
  assumes r: "routines_finish n r" and b: "8 * length (tokens s) + 1 \<le> Suc n"
  shows "finishes (parseComment_body r s)
    (\<lambda>v. shorter s)"
  unfolding parseComment_body_def using b
  by (auto simp: finishes_simps warn_def tag_dot_def tag_inline_def tag_block_def
        intro!: finishes_calls [OF r] finishes_others)

lemma fin_parseFilter:
  assumes r: "routines_finish n r" and b: "8 * length (tokens s) + 1 \<le> Suc n"
  shows "finishes (parseFilter_body r s)
    (\<lambda>v. shorter s)"
  unfolding parseFilter_body_def using b
  by (auto simp: finishes_simps warn_def tag_dot_def tag_inline_def tag_block_def
        intro!: finishes_calls [OF r] finishes_others)

lemma fin_parseEach:
  assumes r: "routines_finish n r" and b: "8 * length (tokens s) + 1 \<le> Suc n"
  shows "finishes (parseEach_body r s)
    (\<lambda>v. shorter s)"
  unfolding parseEach_body_def using b
  by (auto simp: finishes_simps warn_def tag_dot_def tag_inline_def tag_block_def
        intro!: finishes_calls [OF r] finishes_others)

lemma fin_parseBlock:
  assumes r: "routines_finish n r" and b: "8 * length (tokens s) + 1 \<le> Suc n"
  shows "finishes (parseBlock_body r s)
    (\<lambda>v. shorter s)"
  unfolding parseBlock_body_def using b
  by (auto simp: finishes_simps warn_def tag_dot_def tag_inline_def tag_block_def
        intro!: finishes_calls [OF r] finishes_others)

lemma fin_parseInclude:
  assumes r: "routines_finish n r" and b: "8 * length (tokens s) + 1 \<le> Suc n"
  shows "finishes (parseInclude_body r s)
    (\<lambda>v. shorter s)"
  unfolding parseInclude_body_def using b
  by (auto simp: finishes_simps warn_def tag_dot_def tag_inline_def tag_block_def
        intro!: finishes_calls [OF r] finishes_others)

lemma fin_parseCall:
  assumes r: "routines_finish n r" and b: "8 * length (tokens s) + 1 \<le> Suc n"
  shows "finishes (parseCall_body r s)
    (\<lambda>v. shorter s)"
  unfolding parseCall_body_def using b
  by (auto simp: finishes_simps warn_def tag_dot_def tag_inline_def tag_block_def
        intro!: finishes_calls [OF r] finishes_others)

lemma fin_parseMixin:
  assumes r: "routines_finish n r" and b: "8 * length (tokens s) + 1 \<le> Suc n"
  shows "finishes (parseMixin_body r s)
    (\<lambda>v. shorter s)"
  unfolding parseMixin_body_def using b
  by (auto simp: finishes_simps warn_def tag_dot_def tag_inline_def tag_block_def
        intro!: finishes_calls [OF r] finishes_others)

lemma fin_parseTextBlock:
  assumes r: "routines_finish n r" and b: "8 * length (tokens s) + 1 \<le> Suc n"
  shows "finishes (parseTextBlock_body r s)
    (\<lambda>v. no_longer s)"
  unfolding parseTextBlock_body_def using b
  by (auto simp: finishes_simps warn_def tag_dot_def tag_inline_def tag_block_def
        intro!: finishes_calls [OF r] finishes_others)

lemma fin_parseTextBlock_loop:
  assumes r: "routines_finish n r" and b: "8 * length (tokens s) + 1 \<le> Suc n"
  shows "finishes (parseTextBlock_loop_body r b s)
    (\<lambda>v. no_longer s)"
  unfolding parseTextBlock_loop_body_def using b
  by (auto simp: finishes_simps warn_def tag_dot_def tag_inline_def tag_block_def
        intro!: finishes_calls [OF r] finishes_others)

lemma fin_block:
  assumes r: "routines_finish n r" and b: "8 * length (tokens s) + 1 \<le> Suc n"
  shows "finishes (block_body r s)
    (\<lambda>v. shorter s)"
  unfolding block_body_def using b
  by (auto simp: finishes_simps warn_def tag_dot_def tag_inline_def tag_block_def
        intro!: finishes_calls [OF r] finishes_others)

lemma fin_block_loop:
  assumes r: "routines_finish n r" and b: "8 * length (tokens s) + 7 \<le> Suc n"
  shows "finishes (block_loop_body r b s)
    (\<lambda>v. no_longer s)"
  unfolding block_loop_body_def using b
  by (auto simp: finishes_simps warn_def tag_dot_def tag_inline_def tag_block_def
        intro!: finishes_calls [OF r] finishes_others)

lemma fin_parseInterpolation:
  assumes r: "routines_finish n r" and b: "8 * length (tokens s) + 1 \<le> Suc n"
  shows "finishes (parseInterpolation_body r s)
    (\<lambda>v. shorter s)"
  unfolding parseInterpolation_body_def using b
  by (auto simp: finishes_simps warn_def tag_dot_def tag_inline_def tag_block_def
        intro!: finishes_calls [OF r] finishes_others)

lemma fin_parseTag:
  assumes r: "routines_finish n r" and b: "8 * (length (tokens s) - 1) + 4 \<le> Suc n"
  shows "finishes (parseTag_body r s)
    (\<lambda>v s'. shorter s s' \<and> length (tokens s') \<le> rest_tag (tl (tokens s)))"
  unfolding parseTag_body_def using b
  by (auto simp: finishes_simps warn_def tag_dot_def tag_inline_def tag_block_def
        intro!: finishes_calls [OF r] finishes_others)

lemma fin_tag:
  assumes r: "routines_finish n r" and b: "8 * length (tokens s) + 3 \<le> Suc n"
  shows "finishes (tag_body r tg s)
    (\<lambda>v s'. no_longer s s' \<and> length (tokens s') \<le> rest_tag (tokens s))"
  unfolding tag_body_def using b
  by (auto simp: finishes_simps warn_def tag_dot_def tag_inline_def tag_block_def
        intro!: finishes_calls [OF r] finishes_others)

lemma fuel_expr_pos: "fuel_expr ts \<noteq> 0"
  by (cases ts) auto

lemmas fin_bodies =
  fin_parseExpr fin_parseText fin_parseText_loop fin_parseTextHtml fin_parseTextHtml_loop fin_parseBlockExpansion fin_parseCase fin_parseCase_loop fin_parseWhen fin_parseDefault fin_parseCode fin_parseComment fin_parseFilter fin_parseEach fin_parseBlock fin_parseInclude fin_parseCall fin_parseMixin fin_parseTextBlock fin_parseTextBlock_loop fin_block fin_block_loop fin_parseInterpolation fin_parseTag fin_tag

lemma routines_finish_with_fuel: "routines_finish n (with_fuel n)"
proof (induction n)
  case 0
  show ?case by (simp add: routines_finish_def with_fuel_0 fuel_expr_pos)
next
  case (Suc n)
  show ?case
    unfolding routines_finish_def with_fuel_Suc
    by (intro conjI allI impI; erule fin_bodies [OF Suc])
qed

lemma parse_loop_finishes:
  "8 * length (tokens s) + 8 \<le> n \<Longrightarrow> finishes (parse_loop n b s) (\<lambda>v s'. True)"
proof (induction n arbitrary: b s)
  case 0
  then show ?case by simp
next
  case (Suc n)
  from Suc.prems show ?case
    by (auto simp: finishes_simps
          intro!: finishes_calls [OF routines_finish_with_fuel] Suc.IH)
qed

lemma parse_finishes:
  assumes "8 * length toks + 8 \<le> n"
  shows "parse n tags toks fn \<noteq> Inl OutOfFuel"
proof -
  from assms have "finishes (Parser_parse n (Parser tags toks fn)) (\<lambda>v s'. True)"
    unfolding Parser_parse_def by (intro parse_loop_finishes) (simp add: Parser_def)
  then show ?thesis
    by (auto simp: parse_def finishes_def split: sum.splits)
qed

lemma stable_refl: "stable m m"
  by (simp add: stable_def)

lemma stable_bind:
  "stable m m' \<Longrightarrow> (\<And>v s. stable (f v s) (f' v s))
   \<Longrightarrow> stable (and_then m f) (and_then m' f')"
  by (cases m) (auto simp: stable_def)

lemma stable_if:
  "(c \<Longrightarrow> stable a a') \<Longrightarrow> (\<not> c \<Longrightarrow> stable b b')
   \<Longrightarrow> stable (if c then a else b) (if c then a' else b')"
  by simp

lemmas stable_intros = stable_bind stable_if stable_refl

lemma le_parseExpr: "routines_le r r' \<Longrightarrow> stable (parseExpr r s) (parseExpr r' s)"
  unfolding routines_le_def by simp

lemma le_parseText: "routines_le r r' \<Longrightarrow> stable (parseText r ob s) (parseText r' ob s)"
  unfolding routines_le_def by simp

lemma le_parseText_loop: "routines_le r r' \<Longrightarrow> stable (parseText_loop r ob tags s) (parseText_loop r' ob tags s)"
  unfolding routines_le_def by simp

lemma le_parseTextHtml: "routines_le r r' \<Longrightarrow> stable (parseTextHtml r s) (parseTextHtml r' s)"
  unfolding routines_le_def by simp

lemma le_parseTextHtml_loop: "routines_le r r' \<Longrightarrow> stable (parseTextHtml_loop r st s) (parseTextHtml_loop r' st s)"
  unfolding routines_le_def by (cases st) simp

lemma le_parseBlockExpansion: "routines_le r r' \<Longrightarrow> stable (parseBlockExpansion r s) (parseBlockExpansion r' s)"
  unfolding routines_le_def by simp

lemma le_parseCase: "routines_le r r' \<Longrightarrow> stable (parseCase r s) (parseCase r' s)"
  unfolding routines_le_def by simp

lemma le_parseCase_loop: "routines_le r r' \<Longrightarrow> stable (parseCase_loop r b s) (parseCase_loop r' b s)"
  unfolding routines_le_def by simp

lemma le_parseWhen: "routines_le r r' \<Longrightarrow> stable (parseWhen r s) (parseWhen r' s)"
  unfolding routines_le_def by simp

lemma le_parseDefault: "routines_le r r' \<Longrightarrow> stable (parseDefault r s) (parseDefault r' s)"
  unfolding routines_le_def by simp

lemma le_parseCode: "routines_le r r' \<Longrightarrow> stable (parseCode r s) (parseCode r' s)"
  unfolding routines_le_def by simp

lemma le_parseComment: "routines_le r r' \<Longrightarrow> stable (parseComment r s) (parseComment r' s)"
  unfolding routines_le_def by simp

lemma le_parseFilter: "routines_le r r' \<Longrightarrow> stable (parseFilter r s) (parseFilter r' s)"
  unfolding routines_le_def by simp

lemma le_parseEach: "routines_le r r' \<Longrightarrow> stable (parseEach r s) (parseEach r' s)"
  unfolding routines_le_def by simp

lemma le_parseBlock: "routines_le r r' \<Longrightarrow> stable (parseBlock r s) (parseBlock r' s)"
  unfolding routines_le_def by simp

lemma le_parseInclude: "routines_le r r' \<Longrightarrow> stable (parseInclude r s) (parseInclude r' s)"
  unfolding routines_le_def by simp

lemma le_parseCall: "routines_le r r' \<Longrightarrow> stable (parseCall r s) (parseCall r' s)"
  unfolding routines_le_def by simp

lemma le_parseMixin: "routines_le r r' \<Longrightarrow> stable (parseMixin r s) (parseMixin r' s)"
  unfolding routines_le_def by simp

lemma le_parseTextBlock: "routines_le r r' \<Longrightarrow> stable (parseTextBlock r s) (parseTextBlock r' s)"
  unfolding routines_le_def by simp

lemma le_parseTextBlock_loop: "routines_le r r' \<Longrightarrow> stable (parseTextBlock_loop r b s) (parseTextBlock_loop r' b s)"
  unfolding routines_le_def by simp

lemma le_block: "routines_le r r' \<Longrightarrow> stable (block r s) (block r' s)"
  unfolding routines_le_def by simp

lemma le_block_loop: "routines_le r r' \<Longrightarrow> stable (block_loop r b s) (block_loop r' b s)"
  unfolding routines_le_def by simp

lemma le_parseInterpolation: "routines_le r r' \<Longrightarrow> stable (parseInterpolation r s) (parseInterpolation r' s)"
  unfolding routines_le_def by simp

lemma le_parseTag: "routines_le r r' \<Longrightarrow> stable (parseTag r s) (parseTag r' s)"
  unfolding routines_le_def by simp

lemma le_tag: "routines_le r r' \<Longrightarrow> stable (tag r tg s) (tag r' tg s)"
  unfolding routines_le_def by simp

lemmas le_calls =
  le_parseExpr le_parseText le_parseText_loop le_parseTextHtml le_parseTextHtml_loop le_parseBlockExpansion le_parseCase le_parseCase_loop le_parseWhen le_parseDefault le_parseCode le_parseComment le_parseFilter le_parseEach le_parseBlock le_parseInclude le_parseCall le_parseMixin le_parseTextBlock le_parseTextBlock_loop le_block le_block_loop le_parseInterpolation le_parseTag le_tag

lemma stable_parseExpr:
  assumes "routines_le r r'"
  shows "stable (parseExpr_body r s) (parseExpr_body r' s)"
  unfolding parseExpr_body_def Let_def
  by (intro stable_intros le_calls [OF assms])

lemma stable_parseText:
  assumes "routines_le r r'"
  shows "stable (parseText_body r ob s) (parseText_body r' ob s)"
  unfolding parseText_body_def Let_def
  by (intro stable_intros le_calls [OF assms])

lemma stable_parseText_loop:
  assumes "routines_le r r'"
  shows "stable (parseText_loop_body r ob tags s) (parseText_loop_body r' ob tags s)"
  unfolding parseText_loop_body_def Let_def
  by (intro stable_intros le_calls [OF assms])

lemma stable_parseTextHtml:
  assumes "routines_le r r'"
  shows "stable (parseTextHtml_body r s) (parseTextHtml_body r' s)"
  unfolding parseTextHtml_body_def Let_def
  by (intro stable_intros le_calls [OF assms])

lemma stable_parseTextHtml_loop:
  assumes "routines_le r r'"
  shows "stable (parseTextHtml_loop_body r st s) (parseTextHtml_loop_body r' st s)"
  unfolding parseTextHtml_loop_body_def Let_def
  by (intro stable_intros le_calls [OF assms])

lemma stable_parseBlockExpansion:
  assumes "routines_le r r'"
  shows "stable (parseBlockExpansion_body r s) (parseBlockExpansion_body r' s)"
  unfolding parseBlockExpansion_body_def Let_def
  by (intro stable_intros le_calls [OF assms])

lemma stable_parseCase:
  assumes "routines_le r r'"
  shows "stable (parseCase_body r s) (parseCase_body r' s)"
  unfolding parseCase_body_def Let_def
  by (intro stable_intros le_calls [OF assms])

lemma stable_parseCase_loop:
  assumes "routines_le r r'"
  shows "stable (parseCase_loop_body r b s) (parseCase_loop_body r' b s)"
  unfolding parseCase_loop_body_def Let_def
  by (intro stable_intros le_calls [OF assms])

lemma stable_parseWhen:
  assumes "routines_le r r'"
  shows "stable (parseWhen_body r s) (parseWhen_body r' s)"
  unfolding parseWhen_body_def Let_def
  by (intro stable_intros le_calls [OF assms])

lemma stable_parseDefault:
  assumes "routines_le r r'"
  shows "stable (parseDefault_body r s) (parseDefault_body r' s)"
  unfolding parseDefault_body_def Let_def
  by (intro stable_intros le_calls [OF assms])

lemma stable_parseCode:
  assumes "routines_le r r'"
  shows "stable (parseCode_body r s) (parseCode_body r' s)"
  unfolding parseCode_body_def Let_def
  by (intro stable_intros le_calls [OF assms])

lemma stable_parseComment:
  assumes "routines_le r r'"
  shows "stable (parseComment_body r s) (parseComment_body r' s)"
  unfolding parseComment_body_def Let_def
  by (intro stable_intros le_calls [OF assms])

lemma stable_parseFilter:
  assumes "routines_le r r'"
  shows "stable (parseFilter_body r s) (parseFilter_body r' s)"
  unfolding parseFilter_body_def Let_def
  by (intro stable_intros le_calls [OF assms])

lemma stable_parseEach:
  assumes "routines_le r r'"
  shows "stable (parseEach_body r s) (parseEach_body r' s)"
  unfolding parseEach_body_def Let_def
  by (intro stable_intros le_calls [OF assms])

lemma stable_parseBlock:
  assumes "routines_le r r'"
  shows "stable (parseBlock_body r s) (parseBlock_body r' s)"
  unfolding parseBlock_body_def Let_def
  by (intro stable_intros le_calls [OF assms])

lemma stable_parseInclude:
  assumes "routines_le r r'"
  shows "stable (parseInclude_body r s) (parseInclude_body r' s)"
  unfolding parseInclude_body_def Let_def
  by (intro stable_intros le_calls [OF assms])

lemma stable_parseCall:
  assumes "routines_le r r'"
  shows "stable (parseCall_body r s) (parseCall_body r' s)"
  unfolding parseCall_body_def Let_def
  by (intro stable_intros le_calls [OF assms])

lemma stable_parseMixin:
  assumes "routines_le r r'"
  shows "stable (parseMixin_body r s) (parseMixin_body r' s)"
  unfolding parseMixin_body_def Let_def
  by (intro stable_intros le_calls [OF assms])

lemma stable_parseTextBlock:
  assumes "routines_le r r'"
  shows "stable (parseTextBlock_body r s) (parseTextBlock_body r' s)"
  unfolding parseTextBlock_body_def Let_def
  by (intro stable_intros le_calls [OF assms])

lemma stable_parseTextBlock_loop:
  assumes "routines_le r r'"
  shows "stable (parseTextBlock_loop_body r b s) (parseTextBlock_loop_body r' b s)"
  unfolding parseTextBlock_loop_body_def Let_def
  by (intro stable_intros le_calls [OF assms])

lemma stable_block:
  assumes "routines_le r r'"
  shows "stable (block_body r s) (block_body r' s)"
  unfolding block_body_def Let_def
  by (intro stable_intros le_calls [OF assms])

lemma stable_block_loop:
  assumes "routines_le r r'"
  shows "stable (block_loop_body r b s) (block_loop_body r' b s)"
  unfolding block_loop_body_def Let_def
  by (intro stable_intros le_calls [OF assms])

lemma stable_parseInterpolation:
  assumes "routines_le r r'"
  shows "stable (parseInterpolation_body r s) (parseInterpolation_body r' s)"
  unfolding parseInterpolation_body_def Let_def
  by (intro stable_intros le_calls [OF assms])

lemma stable_parseTag:
  assumes "routines_le r r'"
  shows "stable (parseTag_body r s) (parseTag_body r' s)"
  unfolding parseTag_body_def Let_def
  by (intro stable_intros le_calls [OF assms])

lemma stable_tag:
  assumes "routines_le r r'"
  shows "stable (tag_body r tg s) (tag_body r' tg s)"
  unfolding tag_body_def tag_inline_def tag_block_def Let_def
  by (intro stable_intros le_calls [OF assms])

lemmas stable_bodies =
  stable_parseExpr stable_parseText stable_parseText_loop stable_parseTextHtml stable_parseTextHtml_loop stable_parseBlockExpansion stable_parseCase stable_parseCase_loop stable_parseWhen stable_parseDefault stable_parseCode stable_parseComment stable_parseFilter stable_parseEach stable_parseBlock stable_parseInclude stable_parseCall stable_parseMixin stable_parseTextBlock stable_parseTextBlock_loop stable_block stable_block_loop stable_parseInterpolation stable_parseTag stable_tag

lemma with_fuel_le: "routines_le (with_fuel n) (with_fuel (Suc n))"
proof (induction n)
  case 0
  show ?case by (simp add: routines_le_def with_fuel_0 stable_def)
next
  case (Suc n)
  show ?case
    unfolding routines_le_def with_fuel_Suc
    by (intro conjI allI stable_bodies [OF Suc])
qed

lemma parse_loop_stable: "stable (parse_loop n b s) (parse_loop (Suc n) b s)"
proof (induction n arbitrary: b s)
  case 0
  show ?case by (simp add: stable_def)
next
  case (Suc n)
  show ?case
    unfolding parse_loop.simps(2) [of "Suc n" b s] parse_loop.simps(2) [of n b s]
    by (intro stable_intros le_calls [OF with_fuel_le] Suc.IH)
qed

lemma parse_loop_enough:
  assumes "8 * length (tokens s) + 8 \<le> n"
  shows "parse_loop (n + k) b s = parse_loop n b s"
proof (induction k)
  case 0
  show ?case by simp
next
  case (Suc k)
  from parse_loop_finishes [OF assms, of b] have "parse_loop n b s \<noteq> Inl OutOfFuel"
    by (auto simp: finishes_def)
  with Suc have "parse_loop (n + k) b s \<noteq> Inl OutOfFuel" by simp
  with parse_loop_stable [of "n + k" b s] Suc show ?case by (simp add: stable_def)
qed

lemma parse_enough:
  assumes "8 * length toks + 8 \<le> n"
  shows "parse n tags toks fn = parse (8 * length toks + 8) tags toks fn"
proof -
  from assms obtain k where n: "n = 8 * length toks + 8 + k"
    by (auto simp: le_iff_add)
  have "8 * length (tokens (Parser tags toks fn)) + 8 \<le> 8 * length toks + 8"
    by (simp add: Parser_def)
  from parse_loop_enough [OF this]
  show ?thesis unfolding n parse_def Parser_parse_def by simp
qed

section \<open>The root of the tree and its JSON form\<close>

lemma json_clone_undefined: "json_clone v = JUndefined \<longleftrightarrow> v = JUndefined"
  by (cases v) simp_all

lemma json_plain_clone: "v \<noteq> JUndefined \<Longrightarrow> json_plain (json_clone v)"
proof (induction v)
  case (JArr xs)
  then show ?case by (auto simp: json_clone_undefined)
next
  case (JObj ps)
  then show ?case by (fastforce simp: json_clone_undefined)
qed simp_all

lemma json_clone_plain: "json_plain v \<Longrightarrow> json_clone v = v"
proof (induction v)
  case (JArr xs)
  then have "map json_clone xs = xs" by (simp add: map_idI)
  moreover have "\<forall>x \<in> set xs. x \<noteq> JUndefined" using JArr.prems by auto
  ultimately show ?case by (simp add: map_idI)
next
  case (JObj ps)
  have "map (map_prod id json_clone) ps = ps"
  proof (rule map_idI)
    fix p assume "p \<in> set ps"
    with JObj show "map_prod id json_clone p = p" by (cases p) fastforce
  qed
  moreover have "filter (\<lambda>p. snd p \<noteq> JUndefined) ps = ps"
    using JObj.prems by (auto simp: filter_id_conv)
  ultimately show ?case by simp
qed simp_all

lemma json_clone_idem: "json_clone (json_clone v) = json_clone v"
proof (cases "v = JUndefined")
  case True
  then show ?thesis by simp
next
  case False
  then show ?thesis by (intro json_clone_plain json_plain_clone)
qed

lemma concat_nodes_root: "concat_nodes (root_block fn ns) vs = root_block fn (ns @ vs)"
  by (simp add: concat_nodes_def root_block_def concat_arr_def)

lemma push_node_root: "push_node (root_block fn ns) v = root_block fn (ns @ [v])"
  by (simp add: push_node_def root_block_def push_def)

lemma parse_loop_root:
  "parse_loop n (root_block fn ns) s = Inr (b, s') \<Longrightarrow> \<exists>ns'. b = root_block fn ns'"
proof (induction n arbitrary: ns s)
  case 0
  then show ?case by simp
next
  case (Suc n)
  from Suc.prems show ?case
    by (auto simp: and_then_Inr concat_nodes_root push_node_root
          split: if_splits dest: Suc.IH)
qed

lemma Parser_parse_root:
  "Parser_parse n s = Inr (b, s') \<Longrightarrow> \<exists>ns. b = root_block (filename s) ns"
proof -
  have "set_prop (set_prop empty_block ''line'' (JNum 0)) ''filename'' (JStr (filename s))
        = root_block (filename s) []"
    by (simp add: empty_block_def root_block_def)
  then show "Parser_parse n s = Inr (b, s') \<Longrightarrow> \<exists>ns. b = root_block (filename s) ns"
    unfolding Parser_parse_def by (auto dest: parse_loop_root)
qed

lemma json_clone_root:
  "json_clone (root_block fn ns)
   = root_block fn (map (\<lambda>v. if v = JUndefined then JNull else v) (map json_clone ns))"
  by (simp add: root_block_def)

lemma parse_root:
  assumes "parse n tags toks fn = Inr ast"
  shows "(\<exists>ns. ast = root_block fn ns) \<and> json_plain ast \<and> json_clone ast = ast"
proof -
  from assms obtain b s' where p: "Parser_parse n (Parser tags toks fn) = Inr (b, s')"
    and ast: "ast = json_clone b"
    by (auto simp: parse_def split: sum.splits)
  from Parser_parse_root [OF p] obtain ns where b: "b = root_block fn ns"
    by (auto simp: Parser_def)
  have 1: "\<exists>ns. ast = root_block fn ns" using ast b json_clone_root by blast
  have "b \<noteq> JUndefined" using b by (simp add: root_block_def)
  then have 2: "json_plain ast" using ast by (simp add: json_plain_clone)
  from 1 2 show ?thesis by (simp add: json_clone_plain)
qed

text \<open>
  Claim C10.  The parse of every token sequence comes to an end: with a depth of calls
  of 8 for each token and 8 more, the answer of \<^verbatim>\<open>parse\<close> is not that the bound was
  too small, and it is the answer for every larger bound; so a token sequence is either
  refused with one of the errors of the parser, or it is valid and \<^verbatim>\<open>parse\<close>
  returns a tree.  Whenever \<^verbatim>\<open>parse\<close> returns a tree, the tree is one root Block
  with line 0 and the file name passed in; it is plain data that JSON represents (no
  \<^verbatim>\<open>undefined\<close>; the values of the model hold no function and no cycle), and
  serializing and deserializing it again gives the same tree.
\<close>

theorem parse_returns_plain_root:
  "(parse n tags toks fn = Inr ast \<longrightarrow>
      (\<exists>ns. ast = root_block fn ns) \<and> json_plain ast \<and> json_clone ast = ast)
   \<and> (8 * length toks + 8 \<le> n \<longrightarrow>
        parse n tags toks fn \<noteq> Inl OutOfFuel
        \<and> parse n tags toks fn = parse (8 * length toks + 8) tags toks fn)"
  using parse_root [of n tags toks fn ast] parse_finishes [of toks n tags fn]
    parse_enough [of toks n tags fn]
  by blast

theorem parse_returns_plain_root_witness:
  "parse 40 [] [tokv ''tag'' ''p'' 1, tokv ''text'' ''hi'' 1, new_token ''eos''] ''a.jade''
   = Inr (root_block ''a.jade''
        [JObj [(''type'', JStr ''Tag''), (''name'', JStr ''p''),
             (''block'', JObj [(''type'', JStr ''Block''),
                (''nodes'', JArr [JObj [(''type'', JStr ''Text''), (''val'', JStr ''hi'')]])]),
             (''attrs'', JArr []), (''attributeBlocks'', JArr []),
             (''isInline'', JBool False),
             (''line'', JNum 1), (''filename'', JStr ''a.jade'')]])
   \<and> parse 40 [] [tokv ''tag'' ''p'' 1, tokv ''text'' ''hi'' 1, new_token ''eos''] ''a.jade''
     \<noteq> Inl OutOfFuel
   \<and> json_plain (root_block ''a.jade''
        [JObj [(''type'', JStr ''Tag''), (''name'', JStr ''p''),
             (''block'', JObj [(''type'', JStr ''Block''),
                (''nodes'', JArr [JObj [(''type'', JStr ''Text''), (''val'', JStr ''hi'')]])]),
             (''attrs'', JArr []), (''attributeBlocks'', JArr []),
             (''isInline'', JBool False),
             (''line'', JNum 1), (''filename'', JStr ''a.jade'')]])
   \<and> json_clone (root_block ''a.jade''
        [JObj [(''type'', JStr ''Tag''), (''name'', JStr ''p''),
             (''block'', JObj [(''type'', JStr ''Block''),
                (''nodes'', JArr [JObj [(''type'', JStr ''Text''), (''val'', JStr ''hi'')]])]),
             (''attrs'', JArr []), (''attributeBlocks'', JArr []),
             (''isInline'', JBool False),
             (''line'', JNum 1), (''filename'', JStr ''a.jade'')]])
     = root_block ''a.jade''
        [JObj [(''type'', JStr ''Tag''), (''name'', JStr ''p''),
             (''block'', JObj [(''type'', JStr ''Block''),
                (''nodes'', JArr [JObj [(''type'', JStr ''Text''), (''val'', JStr ''hi'')]])]),
             (''attrs'', JArr []), (''attributeBlocks'', JArr []),
             (''isInline'', JBool False),
             (''line'', JNum 1), (''filename'', JStr ''a.jade'')]]"
proof -
  let ?toks = "[tokv ''tag'' ''p'' 1, tokv ''text'' ''hi'' 1, new_token ''eos'']"
  let ?ast = "root_block ''a.jade''
        [JObj [(''type'', JStr ''Tag''), (''name'', JStr ''p''),
             (''block'', JObj [(''type'', JStr ''Block''),
                (''nodes'', JArr [JObj [(''type'', JStr ''Text''), (''val'', JStr ''hi'')]])]),
             (''attrs'', JArr []), (''attributeBlocks'', JArr []),
             (''isInline'', JBool False),
             (''line'', JNum 1), (''filename'', JStr ''a.jade'')]]"
  have run: "parse 32 [] ?toks ''a.jade'' = Inr ?ast"
    by (simp add: parser_defs root_block_def)
  have bound: "8 * length ?toks + 8 \<le> (40::nat)" and 32: "8 * length ?toks + 8 = 32"
    by simp_all
  note a = parse_returns_plain_root [where n = 40 and tags = "[]" and toks = ?toks
      and fn = "''a.jade''" and ast = ?ast]
  from a bound have ends: "parse 40 [] ?toks ''a.jade'' \<noteq> Inl OutOfFuel"
    and same: "parse 40 [] ?toks ''a.jade'' = parse (8 * length ?toks + 8) [] ?toks ''a.jade''"
    by blast+
  from same run have run40: "parse 40 [] ?toks ''a.jade'' = Inr ?ast"
    unfolding 32 by simp
  from a run40 have "json_plain ?ast \<and> json_clone ?ast = ?ast" by blast
  with run40 ends show ?thesis by blast
qed


section \<open>The fields that every node carries\<close>

lemma all_typed_simps [simp]:
  "all_typed JUndefined" "all_typed JNull" "all_typed (JBool b)" "all_typed (JNum n)"
  "all_typed (JStr x)"
  by (simp_all add: all_typed_def)

lemma all_typed_JArr [simp]: "all_typed (JArr xs) \<longleftrightarrow> (\<forall>x \<in> set xs. all_typed x)"
  by (auto simp: all_typed_def)

lemma all_typed_JObj:
  "all_typed (JObj ps) \<longleftrightarrow>
     typed (JObj ps) \<and> (\<forall>p \<in> set ps. node_key (fst p) \<longrightarrow> all_typed (snd p))"
  by (auto simp: all_typed_def split: if_splits)

lemma all_typed_Nil [simp]: "all_typed (JObj []) \<longleftrightarrow> typed (JObj [])"
  by (simp add: all_typed_JObj)

lemma set_update_prop: "set (update_prop k v ps) \<subseteq> insert (k, v) (set ps)"
  by (induction ps) auto

lemma map_of_update_prop: "map_of (update_prop k v ps) k' = (if k' = k then Some v else map_of ps k')"
  by (induction ps) auto

lemma typed_set_prop:
  "typed ob \<Longrightarrow> (k = ''type'' \<Longrightarrow> is_str v) \<Longrightarrow> typed (set_prop ob k v)"
  by (cases ob) (auto simp: typed_def map_of_update_prop)

lemma all_typed_set_prop:
  assumes "all_typed ob" "node_key k \<Longrightarrow> all_typed v" "k = ''type'' \<Longrightarrow> is_str v"
  shows "all_typed (set_prop ob k v)"
proof (cases ob)
  case (JObj ps)
  have "typed (JObj (update_prop k v ps))"
    using typed_set_prop [of ob k v] assms JObj by (simp add: all_typed_JObj)
  moreover have "\<forall>p \<in> set (update_prop k v ps). node_key (fst p) \<longrightarrow> all_typed (snd p)"
    using set_update_prop [of k v ps] assms JObj by (auto simp: all_typed_JObj)
  ultimately show ?thesis using JObj by (simp add: all_typed_JObj)
qed (use assms in simp_all)

lemma all_typed_get_prop: "all_typed ob \<Longrightarrow> node_key k \<Longrightarrow> all_typed (get_prop ob k)"
  by (cases ob) (auto simp: all_typed_JObj split: option.splits dest!: map_of_SomeD)

lemma all_typed_elems: "all_typed a \<Longrightarrow> x \<in> set (elems a) \<Longrightarrow> all_typed x"
  by (cases a) auto

lemma all_typed_elems_ball: "all_typed a \<Longrightarrow> \<forall>x \<in> set (elems a). all_typed x"
  by (cases a) auto

lemma all_typed_push: "all_typed a \<Longrightarrow> all_typed v \<Longrightarrow> all_typed (push a v)"
  by (auto simp: push_def dest: all_typed_elems)

lemma all_typed_concat_arr:
  "all_typed a \<Longrightarrow> \<forall>v \<in> set vs. all_typed v \<Longrightarrow> all_typed (concat_arr a vs)"
  by (auto simp: concat_arr_def dest: all_typed_elems)

lemma node_key_simps [simp]:
  "node_key ''nodes''" "node_key ''block''" "node_key ''code''" "node_key ''alternative''"
  by (simp_all add: node_key_def)

lemma all_typed_push_node: "all_typed b \<Longrightarrow> all_typed v \<Longrightarrow> all_typed (push_node b v)"
  unfolding push_node_def
  by (intro all_typed_set_prop all_typed_push all_typed_get_prop) simp_all

lemma all_typed_concat_nodes:
  "all_typed b \<Longrightarrow> \<forall>v \<in> set vs. all_typed v \<Longrightarrow> all_typed (concat_nodes b vs)"
  unfolding concat_nodes_def
  by (intro all_typed_set_prop all_typed_concat_arr all_typed_get_prop) simp_all

lemma all_typed_push_block_node:
  "all_typed ob \<Longrightarrow> all_typed v \<Longrightarrow> all_typed (push_block_node ob v)"
  unfolding push_block_node_def Let_def
  by (intro all_typed_set_prop all_typed_push all_typed_get_prop) simp_all

lemma all_typed_foldl_push_block_node:
  "all_typed ob \<Longrightarrow> \<forall>v \<in> set vs. all_typed v \<Longrightarrow> all_typed (foldl push_block_node ob vs)"
  by (induction vs arbitrary: ob) (simp_all add: all_typed_push_block_node)

lemma map_of_filter_other:
  "k' \<noteq> k \<Longrightarrow> map_of (filter (\<lambda>p. fst p \<noteq> k) ps) k' = map_of ps k'"
  by (induction ps) auto

lemma all_typed_delete_prop:
  "all_typed ob \<Longrightarrow> k \<noteq> ''type'' \<Longrightarrow> all_typed (delete_prop ob k)"
  by (cases ob) (auto simp: all_typed_JObj typed_def map_of_filter_other)

lemma all_typed_append_val: "all_typed node \<Longrightarrow> all_typed (append_val node x)"
  unfolding append_val_def by (intro all_typed_set_prop) (simp_all add: node_key_def)

lemma all_typed_empty_block [simp]: "all_typed empty_block"
  by (simp add: empty_block_def all_typed_JObj typed_def)

lemma all_typed_html_text:
  assumes "\<forall>v \<in> set (fst st). all_typed v"
  shows "\<forall>v \<in> set (fst (html_text t s st)). all_typed v"
proof (cases st)
  case (Pair nodes cur)
  show ?thesis
  proof (cases cur)
    case None
    with Pair assms show ?thesis
      by (auto simp: html_text_def all_typed_JObj typed_def node_key_def)
  next
    case (Some i)
    show ?thesis
    proof (cases "i < length nodes")
      case True
      then have "all_typed (append_val (nodes ! i) (CHR 0x0A # tok_val t))"
        using assms Pair by (intro all_typed_append_val) simp
      with Pair Some assms show ?thesis
        by (auto simp: html_text_def dest!: subsetD [OF set_update_subset_insert])
    next
      case False
      then have "length nodes \<le> i" by simp
      with Pair Some assms show ?thesis by (simp add: html_text_def list_update_beyond)
    qed
  qed
qed

lemma all_typed_html_merge:
  assumes "\<forall>v \<in> set (fst st). all_typed v" "all_typed node"
  shows "\<forall>v \<in> set (fst (html_merge st node)). all_typed v"
proof (cases st)
  case (Pair nodes cur)
  show ?thesis
  proof (cases cur)
    case None
    with Pair assms show ?thesis by (auto simp: html_merge_def)
  next
    case (Some i)
    show ?thesis
    proof (cases "i < length nodes")
      case True
      then have "all_typed (append_val (nodes ! i) (CHR 0x0A # str_of (get_prop node ''val'')))"
        using assms Pair by (intro all_typed_append_val) simp
      with Pair Some assms show ?thesis
        by (auto simp: html_merge_def dest!: subsetD [OF set_update_subset_insert])
    next
      case False
      then have "length nodes \<le> i" by simp
      with Pair Some assms show ?thesis by (auto simp: html_merge_def list_update_beyond)
    qed
  qed
qed

lemma all_typed_foldl_html_merge:
  "\<forall>v \<in> set (fst st). all_typed v \<Longrightarrow> \<forall>v \<in> set vs. all_typed v \<Longrightarrow>
   \<forall>v \<in> set (fst (foldl html_merge st vs)). all_typed v"
proof (induction vs arbitrary: st)
  case Nil
  then show ?case by simp
next
  case (Cons a vs)
  from Cons.prems have "\<forall>v \<in> set (fst (html_merge st a)). all_typed v"
    by (intro all_typed_html_merge) simp_all
  with Cons show ?case by simp
qed

lemma all_typed_tag_attrs_entries:
  "tag_attrs_entries tg names as = Inr (tg', names') \<Longrightarrow> all_typed tg \<Longrightarrow> all_typed tg'"
proof (induction tg names as arbitrary: tg' names' rule: tag_attrs_entries.induct)
  case (1 tg names)
  then show ?case by simp
next
  case (2 tg names a as)
  let ?tg = "set_prop tg ''attrs'' (push (get_prop tg ''attrs'')
                (JObj [(''name'', JStr (attr_name a)), (''val'', attr_val a),
                       (''escaped'', attr_escaped a)]))"
  have "all_typed ?tg" using "2.prems"(2)
    by (intro all_typed_set_prop) (simp_all add: node_key_def)
  with 2 show ?case by (auto split: if_splits)
qed

lemma all_typed_tag_attrs_loop:
  "tag_attrs_loop fn tg seen names ws ts = Inr (tg', ws', ts') \<Longrightarrow> all_typed tg
   \<Longrightarrow> all_typed tg'"
proof (induction fn tg seen names ws ts rule: tag_attrs_loop.induct)
  case (1 fn tg seen names ws)
  then show ?case by simp
next
  case (2 fn tg seen names ws t ts)
  have sp: "\<And>k v. \<not> node_key k \<Longrightarrow> k \<noteq> ''type'' \<Longrightarrow> all_typed (set_prop tg k v)"
    using "2.prems"(2) by (intro all_typed_set_prop) simp_all
  show ?case
  proof (cases "tok_type t = ''id'' \<or> tok_type t = ''class''")
    case True
    with 2 sp show ?thesis by (auto simp: node_key_def split: if_splits)
  next
    case False
    note nid = this
    show ?thesis
    proof (cases "tok_type t = ''attrs''")
      case True
      let ?tg = "if truthy (tok_selfClosing t) then set_prop tg ''selfClosing'' (JBool True)
                 else tg"
      have tg: "all_typed ?tg" using sp "2.prems"(2) by (simp add: node_key_def)
      show ?thesis
      proof (cases "tag_attrs_entries ?tg names (tok_attrs t)")
        case (Inl e)
        with 2 True nid show ?thesis by simp
      next
        case (Inr p)
        obtain tg1 names1 where p: "p = (tg1, names1)" by (cases p)
        have tg1: "all_typed tg1"
          using all_typed_tag_attrs_entries [OF Inr [unfolded p] tg] .
        from "2.prems"(1) True nid Inr p
        have lp: "tag_attrs_loop fn tg1 True names1
               (if seen then ws @ [MultipleAttributes fn (tok_line t)] else ws) ts
               = Inr (tg', ws', ts')"
          by simp
        from "2.IH"(2) [OF nid True Inr [unfolded p] refl lp tg1] show ?thesis .
      qed
    next
      case False
      with 2 nid sp show ?thesis by (auto simp: node_key_def split: if_splits)
    qed
  qed
qed

lemma all_typed_tag_attrs:
  "tag_attrs tg s = Inr (tg', s') \<Longrightarrow> all_typed tg \<Longrightarrow> all_typed tg'"
  by (auto simp: tag_attrs_def split: sum.splits dest: all_typed_tag_attrs_loop)

lemma rt_Inl: "returns_typed (Inl e)"
  by (simp add: returns_typed_def)

lemma rt_Inr: "all_typed v \<Longrightarrow> returns_typed (Inr (v, s))"
  by (simp add: returns_typed_def)

lemma rt_if:
  "(c \<Longrightarrow> returns_typed a) \<Longrightarrow> (\<not> c \<Longrightarrow> returns_typed b) \<Longrightarrow> returns_typed (if c then a else b)"
  by simp

lemma rt_bind_val:
  "returns_typed m \<Longrightarrow> (\<And>x s. all_typed x \<Longrightarrow> returns_typed (f x s))
   \<Longrightarrow> returns_typed (and_then m f)"
  unfolding returns_typed_def returns_typed_list_def and_then_Inr by blast

lemma rt_bind_list:
  "returns_typed_list m \<Longrightarrow> (\<And>xs s. \<forall>v \<in> set xs. all_typed v \<Longrightarrow> returns_typed (f xs s))
   \<Longrightarrow> returns_typed (and_then m f)"
  unfolding returns_typed_def returns_typed_list_def and_then_Inr by blast

lemma rt_bind_tok:
  fixes m :: "token result"
  shows "(\<And>x s. returns_typed (f x s)) \<Longrightarrow> returns_typed (and_then m f)"
  unfolding returns_typed_def returns_typed_list_def and_then_Inr by blast

lemma rt_bind_opt:
  fixes m :: "token option result"
  shows "(\<And>x s. returns_typed (f x s)) \<Longrightarrow> returns_typed (and_then m f)"
  unfolding returns_typed_def returns_typed_list_def and_then_Inr by blast

lemma rt_bind_unit:
  fixes m :: "unit result"
  shows "(\<And>x s. returns_typed (f x s)) \<Longrightarrow> returns_typed (and_then m f)"
  unfolding returns_typed_def returns_typed_list_def and_then_Inr by blast

lemma rtl_Inl: "returns_typed_list (Inl e)"
  by (simp add: returns_typed_list_def)

lemma rtl_Inr: "\<forall>v \<in> set vs. all_typed v \<Longrightarrow> returns_typed_list (Inr (vs, s))"
  by (simp add: returns_typed_list_def)

lemma rtl_if:
  "(c \<Longrightarrow> returns_typed_list a) \<Longrightarrow> (\<not> c \<Longrightarrow> returns_typed_list b)
   \<Longrightarrow> returns_typed_list (if c then a else b)"
  by simp

lemma rtl_bind_val:
  "returns_typed m \<Longrightarrow> (\<And>x s. all_typed x \<Longrightarrow> returns_typed_list (f x s))
   \<Longrightarrow> returns_typed_list (and_then m f)"
  unfolding returns_typed_def returns_typed_list_def and_then_Inr by blast

lemma rtl_bind_tok:
  fixes m :: "token result"
  shows "(\<And>x s. returns_typed_list (f x s)) \<Longrightarrow> returns_typed_list (and_then m f)"
  unfolding returns_typed_def returns_typed_list_def and_then_Inr by blast

lemmas rt_intros = rt_Inl rt_Inr rt_if rt_bind_val rt_bind_list rt_bind_tok rt_bind_opt
  rt_bind_unit rtl_Inl rtl_Inr rtl_if rtl_bind_val rtl_bind_tok

lemmas all_typed_intros = all_typed_set_prop all_typed_push_node all_typed_concat_nodes
  all_typed_push_block_node all_typed_foldl_push_block_node all_typed_delete_prop
  all_typed_get_prop all_typed_elems_ball

lemma rt_tag_attrs: "all_typed tg \<Longrightarrow> returns_typed (tag_attrs tg s)"
  by (auto simp: returns_typed_def dest: all_typed_tag_attrs)

lemma rt_parseDoctype: "returns_typed (parseDoctype s)"
  unfolding parseDoctype_def
  by (intro rt_intros) (simp add: all_typed_JObj typed_def node_key_def)

lemma rt_parseExtends: "returns_typed (parseExtends s)"
  unfolding parseExtends_def
  by (intro rt_intros) (simp add: all_typed_JObj typed_def node_key_def)

lemma rt_parseMixinBlock: "returns_typed (parseMixinBlock s)"
  unfolding parseMixinBlock_def
  by (intro rt_intros) (simp add: all_typed_JObj typed_def node_key_def)

lemma rt_tag_dot: "all_typed tg \<Longrightarrow> returns_typed (tag_dot tg s)"
  unfolding tag_dot_def
  by (intro rt_intros) (auto intro!: all_typed_intros simp: node_key_def)

lemma routines_typedD:
  assumes "routines_typed r"
  shows "returns_typed (parseExpr r s)"
    and "returns_typed (parseText r ob s)"
    and "\<forall>v \<in> set tags. all_typed v \<Longrightarrow> returns_typed (parseText_loop r ob tags s)"
    and "returns_typed_list (parseTextHtml r s)"
    and "\<forall>v \<in> set (fst st). all_typed v \<Longrightarrow> returns_typed_list (parseTextHtml_loop r st s)"
    and "returns_typed (parseBlockExpansion r s)"
    and "returns_typed (parseCase r s)"
    and "all_typed b \<Longrightarrow> returns_typed (parseCase_loop r b s)"
    and "returns_typed (parseWhen r s)"
    and "returns_typed (parseDefault r s)"
    and "returns_typed (parseCode r s)"
    and "returns_typed (parseComment r s)"
    and "returns_typed (parseFilter r s)"
    and "returns_typed (parseEach r s)"
    and "returns_typed (parseBlock r s)"
    and "returns_typed (parseInclude r s)"
    and "returns_typed (parseCall r s)"
    and "returns_typed (parseMixin r s)"
    and "returns_typed (parseTextBlock r s)"
    and "all_typed b \<Longrightarrow> returns_typed (parseTextBlock_loop r b s)"
    and "returns_typed (block r s)"
    and "all_typed b \<Longrightarrow> returns_typed (block_loop r b s)"
    and "returns_typed (parseInterpolation r s)"
    and "returns_typed (parseTag r s)"
    and "all_typed tg \<Longrightarrow> returns_typed (tag r tg s)"
proof -
  note a = assms [unfolded routines_typed_def]
  show "returns_typed (parseExpr r s)"
    using a by simp
  show "returns_typed (parseText r ob s)"
    using a by simp
  show "\<forall>v \<in> set tags. all_typed v \<Longrightarrow> returns_typed (parseText_loop r ob tags s)"
    using a by simp
  show "returns_typed_list (parseTextHtml r s)"
    using a by simp
  show "\<forall>v \<in> set (fst st). all_typed v \<Longrightarrow> returns_typed_list (parseTextHtml_loop r st s)"
    using a by (cases st) simp
  show "returns_typed (parseBlockExpansion r s)"
    using a by simp
  show "returns_typed (parseCase r s)"
    using a by simp
  show "all_typed b \<Longrightarrow> returns_typed (parseCase_loop r b s)"
    using a by simp
  show "returns_typed (parseWhen r s)"
    using a by simp
  show "returns_typed (parseDefault r s)"
    using a by simp
  show "returns_typed (parseCode r s)"
    using a by simp
  show "returns_typed (parseComment r s)"
    using a by simp
  show "returns_typed (parseFilter r s)"
    using a by simp
  show "returns_typed (parseEach r s)"
    using a by simp
  show "returns_typed (parseBlock r s)"
    using a by simp
  show "returns_typed (parseInclude r s)"
    using a by simp
  show "returns_typed (parseCall r s)"
    using a by simp
  show "returns_typed (parseMixin r s)"
    using a by simp
  show "returns_typed (parseTextBlock r s)"
    using a by simp
  show "all_typed b \<Longrightarrow> returns_typed (parseTextBlock_loop r b s)"
    using a by simp
  show "returns_typed (block r s)"
    using a by simp
  show "all_typed b \<Longrightarrow> returns_typed (block_loop r b s)"
    using a by simp
  show "returns_typed (parseInterpolation r s)"
    using a by simp
  show "returns_typed (parseTag r s)"
    using a by simp
  show "all_typed tg \<Longrightarrow> returns_typed (tag r tg s)"
    using a by simp
qed

lemma hd_single: "length xs = 1 \<Longrightarrow> hd xs \<in> set xs"
  by (cases xs) auto

lemma rt_tag_inline:
  assumes "routines_typed r" "all_typed tg"
  shows "returns_typed (tag_inline r tg s)"
  unfolding tag_inline_def Let_def
  by (intro rt_intros routines_typedD [OF assms(1)])
     (use assms in \<open>auto simp: all_typed_JObj typed_def node_key_def
        intro!: all_typed_intros\<close>)

lemma rt_tag_block:
  assumes "routines_typed r" "all_typed tg"
  shows "returns_typed (tag_block r tg s)"
  unfolding tag_block_def Let_def
  by (intro rt_intros routines_typedD [OF assms(1)])
     (use assms in \<open>auto simp: all_typed_JObj typed_def node_key_def
        intro!: all_typed_intros\<close>)

lemma rt_parseExpr_body:
  assumes "routines_typed r"
  shows "returns_typed (parseExpr_body r s)"
  unfolding parseExpr_body_def Let_def
  by (intro rt_intros routines_typedD [OF assms(1)] rt_parseDoctype rt_parseExtends
        rt_parseMixinBlock rt_tag_attrs rt_tag_dot)
     (use assms in \<open>auto simp: all_typed_JObj typed_def node_key_def hd_single
        intro!: all_typed_intros all_typed_html_text all_typed_foldl_html_merge\<close>)

lemma rt_parseText_body:
  assumes "routines_typed r"
  shows "returns_typed (parseText_body r ob s)"
  unfolding parseText_body_def Let_def
  by (intro rt_intros routines_typedD [OF assms(1)] rt_parseDoctype rt_parseExtends
        rt_parseMixinBlock rt_tag_attrs rt_tag_dot)
     (use assms in \<open>auto simp: all_typed_JObj typed_def node_key_def hd_single
        intro!: all_typed_intros all_typed_html_text all_typed_foldl_html_merge\<close>)

lemma rt_parseText_loop_body:
  assumes "routines_typed r" "\<forall>v \<in> set tags. all_typed v"
  shows "returns_typed (parseText_loop_body r ob tags s)"
  unfolding parseText_loop_body_def Let_def
  by (intro rt_intros routines_typedD [OF assms(1)] rt_parseDoctype rt_parseExtends
        rt_parseMixinBlock rt_tag_attrs rt_tag_dot)
     (use assms in \<open>auto simp: all_typed_JObj typed_def node_key_def hd_single
        intro!: all_typed_intros all_typed_html_text all_typed_foldl_html_merge\<close>)

lemma rt_parseTextHtml_body:
  assumes "routines_typed r"
  shows "returns_typed_list (parseTextHtml_body r s)"
  unfolding parseTextHtml_body_def Let_def
  by (intro rt_intros routines_typedD [OF assms(1)] rt_parseDoctype rt_parseExtends
        rt_parseMixinBlock rt_tag_attrs rt_tag_dot)
     (use assms in \<open>auto simp: all_typed_JObj typed_def node_key_def hd_single
        intro!: all_typed_intros all_typed_html_text all_typed_foldl_html_merge\<close>)

lemma all_typed_html_block:
  assumes "\<forall>v \<in> set (fst st). all_typed v" "all_typed b"
  shows "\<forall>v \<in> set (fst (foldl html_merge (html_text t s st) (elems (get_prop b ''nodes'')))).
           all_typed v"
proof (rule all_typed_foldl_html_merge)
  show "\<forall>v \<in> set (fst (html_text t s st)). all_typed v"
    using assms(1) by (rule all_typed_html_text)
  have "all_typed (get_prop b ''nodes'')" using assms(2) by (intro all_typed_get_prop) simp_all
  then show "\<forall>v \<in> set (elems (get_prop b ''nodes'')). all_typed v"
    by (rule all_typed_elems_ball)
qed

lemma rt_parseTextHtml_loop_body:
  assumes "routines_typed r" "\<forall>v \<in> set (fst st). all_typed v"
  shows "returns_typed_list (parseTextHtml_loop_body r st s)"
  unfolding parseTextHtml_loop_body_def Let_def
  by (intro rt_intros routines_typedD [OF assms(1)] all_typed_html_block
        all_typed_html_text assms)

lemma rt_parseBlockExpansion_body:
  assumes "routines_typed r"
  shows "returns_typed (parseBlockExpansion_body r s)"
  unfolding parseBlockExpansion_body_def Let_def
  by (intro rt_intros routines_typedD [OF assms(1)] rt_parseDoctype rt_parseExtends
        rt_parseMixinBlock rt_tag_attrs rt_tag_dot)
     (use assms in \<open>auto simp: all_typed_JObj typed_def node_key_def hd_single
        intro!: all_typed_intros all_typed_html_text all_typed_foldl_html_merge\<close>)

lemma rt_parseCase_body:
  assumes "routines_typed r"
  shows "returns_typed (parseCase_body r s)"
  unfolding parseCase_body_def Let_def
  by (intro rt_intros routines_typedD [OF assms(1)] rt_parseDoctype rt_parseExtends
        rt_parseMixinBlock rt_tag_attrs rt_tag_dot)
     (use assms in \<open>auto simp: all_typed_JObj typed_def node_key_def hd_single
        intro!: all_typed_intros all_typed_html_text all_typed_foldl_html_merge\<close>)

lemma rt_parseCase_loop_body:
  assumes "routines_typed r" "all_typed b"
  shows "returns_typed (parseCase_loop_body r b s)"
  unfolding parseCase_loop_body_def Let_def
  by (intro rt_intros routines_typedD [OF assms(1)] rt_parseDoctype rt_parseExtends
        rt_parseMixinBlock rt_tag_attrs rt_tag_dot)
     (use assms in \<open>auto simp: all_typed_JObj typed_def node_key_def hd_single
        intro!: all_typed_intros all_typed_html_text all_typed_foldl_html_merge\<close>)

lemma rt_parseWhen_body:
  assumes "routines_typed r"
  shows "returns_typed (parseWhen_body r s)"
  unfolding parseWhen_body_def Let_def
  by (intro rt_intros routines_typedD [OF assms(1)] rt_parseDoctype rt_parseExtends
        rt_parseMixinBlock rt_tag_attrs rt_tag_dot)
     (use assms in \<open>auto simp: all_typed_JObj typed_def node_key_def hd_single
        intro!: all_typed_intros all_typed_html_text all_typed_foldl_html_merge\<close>)

lemma rt_parseDefault_body:
  assumes "routines_typed r"
  shows "returns_typed (parseDefault_body r s)"
  unfolding parseDefault_body_def Let_def
  by (intro rt_intros routines_typedD [OF assms(1)] rt_parseDoctype rt_parseExtends
        rt_parseMixinBlock rt_tag_attrs rt_tag_dot)
     (use assms in \<open>auto simp: all_typed_JObj typed_def node_key_def hd_single
        intro!: all_typed_intros all_typed_html_text all_typed_foldl_html_merge\<close>)

lemma rt_parseCode_body:
  assumes "routines_typed r"
  shows "returns_typed (parseCode_body r s)"
  unfolding parseCode_body_def Let_def
  by (intro rt_intros routines_typedD [OF assms(1)] rt_parseDoctype rt_parseExtends
        rt_parseMixinBlock rt_tag_attrs rt_tag_dot)
     (use assms in \<open>auto simp: all_typed_JObj typed_def node_key_def hd_single
        intro!: all_typed_intros all_typed_html_text all_typed_foldl_html_merge\<close>)

lemma rt_parseComment_body:
  assumes "routines_typed r"
  shows "returns_typed (parseComment_body r s)"
  unfolding parseComment_body_def Let_def
  by (intro rt_intros routines_typedD [OF assms(1)] rt_parseDoctype rt_parseExtends
        rt_parseMixinBlock rt_tag_attrs rt_tag_dot)
     (use assms in \<open>auto simp: all_typed_JObj typed_def node_key_def hd_single
        intro!: all_typed_intros all_typed_html_text all_typed_foldl_html_merge\<close>)

lemma rt_parseFilter_body:
  assumes "routines_typed r"
  shows "returns_typed (parseFilter_body r s)"
  unfolding parseFilter_body_def Let_def
  by (intro rt_intros routines_typedD [OF assms(1)] rt_parseDoctype rt_parseExtends
        rt_parseMixinBlock rt_tag_attrs rt_tag_dot)
     (use assms in \<open>auto simp: all_typed_JObj typed_def node_key_def hd_single
        intro!: all_typed_intros all_typed_html_text all_typed_foldl_html_merge\<close>)

lemma rt_parseEach_body:
  assumes "routines_typed r"
  shows "returns_typed (parseEach_body r s)"
  unfolding parseEach_body_def Let_def
  by (intro rt_intros routines_typedD [OF assms(1)] rt_parseDoctype rt_parseExtends
        rt_parseMixinBlock rt_tag_attrs rt_tag_dot)
     (use assms in \<open>auto simp: all_typed_JObj typed_def node_key_def hd_single
        intro!: all_typed_intros all_typed_html_text all_typed_foldl_html_merge\<close>)

lemma rt_parseBlock_body:
  assumes "routines_typed r"
  shows "returns_typed (parseBlock_body r s)"
  unfolding parseBlock_body_def Let_def
  by (intro rt_intros routines_typedD [OF assms(1)] rt_parseDoctype rt_parseExtends
        rt_parseMixinBlock rt_tag_attrs rt_tag_dot)
     (use assms in \<open>auto simp: all_typed_JObj typed_def node_key_def hd_single
        intro!: all_typed_intros all_typed_html_text all_typed_foldl_html_merge\<close>)

lemma rt_parseInclude_body:
  assumes "routines_typed r"
  shows "returns_typed (parseInclude_body r s)"
  unfolding parseInclude_body_def Let_def
  by (intro rt_intros routines_typedD [OF assms(1)] rt_parseDoctype rt_parseExtends
        rt_parseMixinBlock rt_tag_attrs rt_tag_dot)
     (use assms in \<open>auto simp: all_typed_JObj typed_def node_key_def hd_single
        intro!: all_typed_intros all_typed_html_text all_typed_foldl_html_merge\<close>)

lemma rt_parseCall_body:
  assumes "routines_typed r"
  shows "returns_typed (parseCall_body r s)"
  unfolding parseCall_body_def Let_def
  by (intro rt_intros routines_typedD [OF assms(1)] rt_parseDoctype rt_parseExtends
        rt_parseMixinBlock rt_tag_attrs rt_tag_dot)
     (use assms in \<open>auto simp: all_typed_JObj typed_def node_key_def hd_single
        intro!: all_typed_intros all_typed_html_text all_typed_foldl_html_merge\<close>)

lemma rt_parseMixin_body:
  assumes "routines_typed r"
  shows "returns_typed (parseMixin_body r s)"
  unfolding parseMixin_body_def Let_def
  by (intro rt_intros routines_typedD [OF assms(1)] rt_parseDoctype rt_parseExtends
        rt_parseMixinBlock rt_tag_attrs rt_tag_dot)
     (use assms in \<open>auto simp: all_typed_JObj typed_def node_key_def hd_single
        intro!: all_typed_intros all_typed_html_text all_typed_foldl_html_merge\<close>)

lemma rt_parseTextBlock_body:
  assumes "routines_typed r"
  shows "returns_typed (parseTextBlock_body r s)"
  unfolding parseTextBlock_body_def Let_def
  by (intro rt_intros routines_typedD [OF assms(1)] rt_parseDoctype rt_parseExtends
        rt_parseMixinBlock rt_tag_attrs rt_tag_dot)
     (use assms in \<open>auto simp: all_typed_JObj typed_def node_key_def hd_single
        intro!: all_typed_intros all_typed_html_text all_typed_foldl_html_merge\<close>)

lemma rt_parseTextBlock_loop_body:
  assumes "routines_typed r" "all_typed b"
  shows "returns_typed (parseTextBlock_loop_body r b s)"
  unfolding parseTextBlock_loop_body_def Let_def
  by (intro rt_intros routines_typedD [OF assms(1)] rt_parseDoctype rt_parseExtends
        rt_parseMixinBlock rt_tag_attrs rt_tag_dot)
     (use assms in \<open>auto simp: all_typed_JObj typed_def node_key_def hd_single
        intro!: all_typed_intros all_typed_html_text all_typed_foldl_html_merge\<close>)

lemma rt_block_body:
  assumes "routines_typed r"
  shows "returns_typed (block_body r s)"
  unfolding block_body_def Let_def
  by (intro rt_intros routines_typedD [OF assms(1)] rt_parseDoctype rt_parseExtends
        rt_parseMixinBlock rt_tag_attrs rt_tag_dot)
     (use assms in \<open>auto simp: all_typed_JObj typed_def node_key_def hd_single
        intro!: all_typed_intros all_typed_html_text all_typed_foldl_html_merge\<close>)

lemma rt_block_loop_body:
  assumes "routines_typed r" "all_typed b"
  shows "returns_typed (block_loop_body r b s)"
  unfolding block_loop_body_def Let_def
  by (intro rt_intros routines_typedD [OF assms(1)] rt_parseDoctype rt_parseExtends
        rt_parseMixinBlock rt_tag_attrs rt_tag_dot)
     (use assms in \<open>auto simp: all_typed_JObj typed_def node_key_def hd_single
        intro!: all_typed_intros all_typed_html_text all_typed_foldl_html_merge\<close>)

lemma rt_parseInterpolation_body:
  assumes "routines_typed r"
  shows "returns_typed (parseInterpolation_body r s)"
  unfolding parseInterpolation_body_def Let_def
  by (intro rt_intros routines_typedD [OF assms(1)] rt_parseDoctype rt_parseExtends
        rt_parseMixinBlock rt_tag_attrs rt_tag_dot)
     (use assms in \<open>auto simp: all_typed_JObj typed_def node_key_def hd_single
        intro!: all_typed_intros all_typed_html_text all_typed_foldl_html_merge\<close>)

lemma rt_parseTag_body:
  assumes "routines_typed r"
  shows "returns_typed (parseTag_body r s)"
  unfolding parseTag_body_def Let_def
  by (intro rt_intros routines_typedD [OF assms(1)] rt_parseDoctype rt_parseExtends
        rt_parseMixinBlock rt_tag_attrs rt_tag_dot)
     (use assms in \<open>auto simp: all_typed_JObj typed_def node_key_def hd_single
        intro!: all_typed_intros all_typed_html_text all_typed_foldl_html_merge\<close>)

lemma rt_tag_body:
  assumes "routines_typed r" "all_typed tg"
  shows "returns_typed (tag_body r tg s)"
  unfolding tag_body_def Let_def
  by (intro rt_intros routines_typedD [OF assms(1)] rt_parseDoctype rt_parseExtends
        rt_parseMixinBlock rt_tag_attrs rt_tag_dot rt_tag_inline rt_tag_block)
     (use assms in \<open>auto simp: all_typed_JObj typed_def node_key_def hd_single
        intro!: all_typed_intros all_typed_html_text all_typed_foldl_html_merge\<close>)

lemmas rt_bodies =
  rt_parseExpr_body
  rt_parseText_body
  rt_parseText_loop_body
  rt_parseTextHtml_body
  rt_parseTextHtml_loop_body
  rt_parseBlockExpansion_body
  rt_parseCase_body
  rt_parseCase_loop_body
  rt_parseWhen_body
  rt_parseDefault_body
  rt_parseCode_body
  rt_parseComment_body
  rt_parseFilter_body
  rt_parseEach_body
  rt_parseBlock_body
  rt_parseInclude_body
  rt_parseCall_body
  rt_parseMixin_body
  rt_parseTextBlock_body
  rt_parseTextBlock_loop_body
  rt_block_body
  rt_block_loop_body
  rt_parseInterpolation_body
  rt_parseTag_body
  rt_tag_body

lemma routines_typed_with_fuel: "routines_typed (with_fuel n)"
proof (induction n)
  case 0
  show ?case
    unfolding routines_typed_def with_fuel_0 by (simp add: rt_Inl rtl_Inl)
next
  case (Suc n)
  show ?case
    unfolding routines_typed_def with_fuel_Suc
    by (intro conjI allI impI rt_bodies [OF Suc]) assumption+
qed

lemma rt_parse_loop: "all_typed b \<Longrightarrow> returns_typed (parse_loop n b s)"
proof (induction n arbitrary: b s)
  case 0
  then show ?case by (simp add: rt_Inl)
next
  case (Suc n)
  show ?case
    unfolding parse_loop.simps
    by (intro rt_intros routines_typedD [OF routines_typed_with_fuel] Suc.IH)
       (use Suc.prems in \<open>auto simp: node_key_def intro!: all_typed_intros\<close>)
qed

lemma map_of_json_clone:
  "map_of ps k = Some v \<Longrightarrow> json_clone v \<noteq> JUndefined \<Longrightarrow>
   map_of (filter (\<lambda>p. snd p \<noteq> JUndefined) (map (map_prod id json_clone) ps)) k
     = Some (json_clone v)"
  by (induction ps) (auto split: if_splits)

lemma typed_json_clone: "typed x \<Longrightarrow> typed (json_clone x)"
proof (cases x)
  case (JObj ps)
  assume "typed x"
  then obtain ty where "map_of ps ''type'' = Some (JStr ty)"
    using JObj by (auto simp: typed_def split: option.splits elim: is_str.elims)
  from map_of_json_clone [OF this] show ?thesis using JObj by (simp add: typed_def)
qed (simp_all add: typed_def)

lemma nodes_of_json_clone: "set (nodes_of (json_clone v)) \<subseteq> json_clone ` set (nodes_of v)"
proof (induction v)
  case (JArr xs)
  show ?case
  proof
    fix y assume "y \<in> set (nodes_of (json_clone (JArr xs)))"
    then obtain x where x: "x \<in> set xs"
      and y: "y \<in> set (nodes_of (if json_clone x = JUndefined then JNull else json_clone x))"
      by auto
    then have "y \<in> set (nodes_of (json_clone x))" by (auto split: if_splits)
    with JArr [OF x] have "y \<in> json_clone ` set (nodes_of x)" by blast
    with x show "y \<in> json_clone ` set (nodes_of (JArr xs))" by auto
  qed
next
  case (JObj ps)
  show ?case
  proof
    fix y assume "y \<in> set (nodes_of (json_clone (JObj ps)))"
    then consider "y = json_clone (JObj ps)"
      | k v where "(k, v) \<in> set ps" "node_key k" "y \<in> set (nodes_of (json_clone v))"
      by (auto split: if_splits)
    then show "y \<in> json_clone ` set (nodes_of (JObj ps))"
    proof cases
      case 1
      then show ?thesis by simp
    next
      case 2
      from JObj [OF 2(1), of v] 2(3) have "y \<in> json_clone ` set (nodes_of v)" by auto
      moreover have "set (nodes_of v) \<subseteq> set (nodes_of (JObj ps))"
        using 2(1,2) by force
      ultimately show ?thesis by blast
    qed
  qed
qed simp_all

lemma all_typed_json_clone: "all_typed v \<Longrightarrow> all_typed (json_clone v)"
  using nodes_of_json_clone [of v] by (auto simp: all_typed_def intro: typed_json_clone)

lemma parse_all_typed:
  assumes "parse n tags toks fn = Inr ast"
  shows "all_typed ast"
proof -
  from assms obtain b s' where p: "Parser_parse n (Parser tags toks fn) = Inr (b, s')"
    and ast: "ast = json_clone b"
    by (auto simp: parse_def split: sum.splits)
  have "all_typed (set_prop (set_prop empty_block ''line'' (JNum 0)) ''filename''
          (JStr (filename (Parser tags toks fn))))"
    by (intro all_typed_set_prop) (simp_all add: node_key_def)
  from rt_parse_loop [OF this] p have "all_typed b"
    unfolding Parser_parse_def returns_typed_def by blast
  with ast show ?thesis by (simp add: all_typed_json_clone)
qed

lemma typed_has_type: "typed x \<Longrightarrow> has_prop x ''type''"
  by (cases x) (auto simp: typed_def split: option.splits)

lemma parse_every_node_typed:
  assumes "parse n tags toks fn = Inr ast"
  shows "(\<forall>x \<in> set (nodes_of ast). typed x \<and> has_prop x ''type'')
       \<and> (\<exists>ns. ast = root_block fn ns) \<and> has_prop ast ''line'' \<and> has_prop ast ''filename''"
proof -
  from parse_all_typed [OF assms] have "\<forall>x \<in> set (nodes_of ast). typed x"
    by (simp add: all_typed_def)
  moreover from parse_root [OF assms] obtain ns where "ast = root_block fn ns" by blast
  ultimately show ?thesis by (auto simp: root_block_def typed_has_type)
qed

text \<open>
  Claim C3, as the specification states it, says that every node of the tree carries
  \<^verbatim>\<open>type\<close>, \<^verbatim>\<open>line\<close> and \<^verbatim>\<open>filename\<close>.  The Text node of the text run of
  \<^verbatim>\<open>[tag 'p', text 'hi', eos]\<close> carries neither \<^verbatim>\<open>line\<close> nor \<^verbatim>\<open>filename\<close>; the
  MixinBlock placeholder of \<^verbatim>\<open>[mixin 'm', indent, mixin-block, outdent, eos]\<close> and the
  yield Block of \<^verbatim>\<open>[tag 'p', indent, yield, outdent, eos]\<close> carry no \<^verbatim>\<open>line\<close>.
\<close>

theorem nodes_without_line_or_filename:
  "parse 7 [] [tokv ''tag'' ''p'' 1, tokv ''text'' ''hi'' 1, new_token ''eos''] ''a.jade''
   = Inr (root_block ''a.jade''
        [JObj [(''type'', JStr ''Tag''), (''name'', JStr ''p''),
             (''block'', JObj [(''type'', JStr ''Block''),
                (''nodes'', JArr [JObj [(''type'', JStr ''Text''), (''val'', JStr ''hi'')]])]),
             (''attrs'', JArr []), (''attributeBlocks'', JArr []),
             (''isInline'', JBool False),
             (''line'', JNum 1), (''filename'', JStr ''a.jade'')]])
   \<and> JObj [(''type'', JStr ''Text''), (''val'', JStr ''hi'')]
       \<in> set (nodes_of (root_block ''a.jade''
        [JObj [(''type'', JStr ''Tag''), (''name'', JStr ''p''),
             (''block'', JObj [(''type'', JStr ''Block''),
                (''nodes'', JArr [JObj [(''type'', JStr ''Text''), (''val'', JStr ''hi'')]])]),
             (''attrs'', JArr []), (''attributeBlocks'', JArr []),
             (''isInline'', JBool False),
             (''line'', JNum 1), (''filename'', JStr ''a.jade'')]]))
   \<and> \<not> has_prop (JObj [(''type'', JStr ''Text''), (''val'', JStr ''hi'')]) ''line''
   \<and> \<not> has_prop (JObj [(''type'', JStr ''Text''), (''val'', JStr ''hi'')]) ''filename''
   \<and> parse 6 []
        [tokv ''mixin'' ''m'' 1, new_token ''indent'', new_token ''mixin-block'',
         new_token ''outdent'', new_token ''eos''] ''a.jade''
     = Inr (root_block ''a.jade''
        [JObj [(''type'', JStr ''Mixin''), (''name'', JStr ''m''),
              (''block'', JObj [(''type'', JStr ''Block''),
                 (''nodes'', JArr [JObj [(''type'', JStr ''MixinBlock''),
                                         (''filename'', JStr ''a.jade'')]]),
                 (''filename'', JStr ''a.jade'')]),
              (''call'', JBool False), (''filename'', JStr ''a.jade''), (''line'', JNum 1)]])
   \<and> JObj [(''type'', JStr ''MixinBlock''), (''filename'', JStr ''a.jade'')]
       \<in> set (nodes_of (root_block ''a.jade''
        [JObj [(''type'', JStr ''Mixin''), (''name'', JStr ''m''),
              (''block'', JObj [(''type'', JStr ''Block''),
                 (''nodes'', JArr [JObj [(''type'', JStr ''MixinBlock''),
                                         (''filename'', JStr ''a.jade'')]]),
                 (''filename'', JStr ''a.jade'')]),
              (''call'', JBool False), (''filename'', JStr ''a.jade''), (''line'', JNum 1)]]))
   \<and> \<not> has_prop (JObj [(''type'', JStr ''MixinBlock''), (''filename'', JStr ''a.jade'')])
         ''line''
   \<and> parse 8 []
        [tokv ''tag'' ''p'' 1, new_token ''indent'', new_token ''yield'',
         new_token ''outdent'', new_token ''eos''] ''a.jade''
     = Inr (root_block ''a.jade''
        [JObj [(''type'', JStr ''Tag''), (''name'', JStr ''p''),
             (''block'', JObj [(''type'', JStr ''Block''),
                (''nodes'', JArr [JObj [(''type'', JStr ''Block''), (''nodes'', JArr []),
                                        (''yield'', JBool True),
                                        (''filename'', JStr ''a.jade'')]])]),
             (''attrs'', JArr []), (''attributeBlocks'', JArr []),
             (''isInline'', JBool False),
             (''line'', JNum 1), (''filename'', JStr ''a.jade'')]])
   \<and> JObj [(''type'', JStr ''Block''), (''nodes'', JArr []), (''yield'', JBool True),
            (''filename'', JStr ''a.jade'')]
       \<in> set (nodes_of (root_block ''a.jade''
        [JObj [(''type'', JStr ''Tag''), (''name'', JStr ''p''),
             (''block'', JObj [(''type'', JStr ''Block''),
                (''nodes'', JArr [JObj [(''type'', JStr ''Block''), (''nodes'', JArr []),
                                        (''yield'', JBool True),
                                        (''filename'', JStr ''a.jade'')]])]),
             (''attrs'', JArr []), (''attributeBlocks'', JArr []),
             (''isInline'', JBool False),
             (''line'', JNum 1), (''filename'', JStr ''a.jade'')]]))
   \<and> \<not> has_prop (JObj [(''type'', JStr ''Block''), (''nodes'', JArr []),
                        (''yield'', JBool True), (''filename'', JStr ''a.jade'')]) ''line''"
  by (simp add: parser_defs root_block_def node_key_def)

text \<open>
  Claim C3, amended.  Every node of the tree that \<^verbatim>\<open>parse\<close> returns, at any depth and
  of any variant, carries a \<^verbatim>\<open>type\<close>, which is a string.  The root Block carries
  \<^verbatim>\<open>line\<close> and \<^verbatim>\<open>filename\<close> as well; the nodes below it need not.
\<close>

theorem every_node_typed:
  "parse n tags toks fn = Inr ast \<longrightarrow>
     (\<forall>x \<in> set (nodes_of ast). typed x \<and> has_prop x ''type'')
     \<and> (\<exists>ns. ast = root_block fn ns) \<and> has_prop ast ''line'' \<and> has_prop ast ''filename''"
  using parse_every_node_typed [of n tags toks fn ast] by blast

theorem every_node_typed_witness:
  "parse 7 [] [tokv ''tag'' ''p'' 1, tokv ''text'' ''hi'' 1, new_token ''eos''] ''a.jade''
   = Inr (root_block ''a.jade''
        [JObj [(''type'', JStr ''Tag''), (''name'', JStr ''p''),
             (''block'', JObj [(''type'', JStr ''Block''),
                (''nodes'', JArr [JObj [(''type'', JStr ''Text''), (''val'', JStr ''hi'')]])]),
             (''attrs'', JArr []), (''attributeBlocks'', JArr []),
             (''isInline'', JBool False),
             (''line'', JNum 1), (''filename'', JStr ''a.jade'')]])
   \<and> has_prop (JObj [(''type'', JStr ''Text''), (''val'', JStr ''hi'')]) ''type''
   \<and> has_prop (root_block ''a.jade''
        [JObj [(''type'', JStr ''Tag''), (''name'', JStr ''p''),
             (''block'', JObj [(''type'', JStr ''Block''),
                (''nodes'', JArr [JObj [(''type'', JStr ''Text''), (''val'', JStr ''hi'')]])]),
             (''attrs'', JArr []), (''attributeBlocks'', JArr []),
             (''isInline'', JBool False),
             (''line'', JNum 1), (''filename'', JStr ''a.jade'')]]) ''line''"
proof -
  let ?ast = "root_block ''a.jade''
        [JObj [(''type'', JStr ''Tag''), (''name'', JStr ''p''),
             (''block'', JObj [(''type'', JStr ''Block''),
                (''nodes'', JArr [JObj [(''type'', JStr ''Text''), (''val'', JStr ''hi'')]])]),
             (''attrs'', JArr []), (''attributeBlocks'', JArr []),
             (''isInline'', JBool False),
             (''line'', JNum 1), (''filename'', JStr ''a.jade'')]]"
  let ?text = "JObj [(''type'', JStr ''Text''), (''val'', JStr ''hi'')]"
  have run: "parse 7 [] [tokv ''tag'' ''p'' 1, tokv ''text'' ''hi'' 1, new_token ''eos'']
      ''a.jade'' = Inr ?ast"
    by (simp add: parser_defs root_block_def)
  have mem: "?text \<in> set (nodes_of ?ast)"
    by (simp add: root_block_def node_key_def)
  from every_node_typed [where n = 7 and tags = "[]"
      and toks = "[tokv ''tag'' ''p'' 1, tokv ''text'' ''hi'' 1, new_token ''eos'']"
      and fn = "''a.jade''" and ast = ?ast] run
  have all: "\<forall>x \<in> set (nodes_of ?ast). typed x \<and> has_prop x ''type''"
    and line: "has_prop ?ast ''line''" by blast+
  from all mem have "has_prop ?text ''type''" by blast
  with run line show ?thesis by blast
qed

section \<open>Further examples\<close>

text \<open>
  A filter with a pipeless text block: \<^verbatim>\<open>[filter 'markdown', start-pipeless-text,
  text 'hi', newline, end-pipeless-text, eos]\<close> gives a Filter node whose block holds
  the Text nodes \<^verbatim>\<open>'hi'\<close> and \<^verbatim>\<open>'\n'\<close>.
\<close>

theorem pipeless_text_of_filter:
  "parse (n + 8) tags
     [tokv ''filter'' ''markdown'' 1, new_token ''start-pipeless-text'',
      tokv ''text'' ''hi'' 2, new_token ''newline'', new_token ''end-pipeless-text'',
      new_token ''eos''] fn
   = Inr (root_block fn
       [JObj [(''type'', JStr ''Filter''), (''name'', JStr ''markdown''),
              (''block'', JObj [(''type'', JStr ''Block''),
                 (''nodes'', JArr [JObj [(''type'', JStr ''Text''), (''val'', JStr ''hi'')],
                                   JObj [(''type'', JStr ''Text''), (''val'', JStr [CHR 0x0A])]])]),
              (''attrs'', JArr []), (''line'', JNum 1), (''filename'', JStr fn)]])"
  by (simp add: parser_defs root_block_def)

text \<open>
  An \<^verbatim>\<open>id\<close> shorthand at the start of an expression: \<^verbatim>\<open>parseExpr\<close> puts a
  \<^verbatim>\<open>tag\<close> token \<^verbatim>\<open>div\<close> with the line of the shorthand in front of the stream,
  and the result is a Tag \<^verbatim>\<open>div\<close> with the attribute \<^verbatim>\<open>id\<close>.
\<close>

theorem shorthand_makes_div:
  "parse (n + 8) tags [tokv ''id'' ''x'' 1, new_token ''eos''] fn
   = Inr (root_block fn
       [JObj [(''type'', JStr ''Tag''), (''name'', JStr ''div''),
              (''block'', JObj [(''type'', JStr ''Block''), (''nodes'', JArr [])]),
              (''attrs'', JArr [JObj [(''name'', JStr ''id''),
                                      (''val'', JStr [CHR 0x27, CHR ''x'', CHR 0x27]),
                                      (''escaped'', JBool False)]]),
              (''attributeBlocks'', JArr []),
              (''isInline'', JBool (index_of_found tags ''div'')),
              (''line'', JNum 1), (''filename'', JStr fn)]])"
  by (simp add: parser_defs root_block_def)

text \<open>
  The loops of the parser stop at an \<^verbatim>\<open>eos\<close> token.  A stream that ends without one
  is read past its end, and the token stream throws.
\<close>

lemma stream_without_eos_fails:
  "parse (n + 6) tags
     [tokv ''mixin'' ''m'' 1, new_token ''indent'', new_token ''mixin-block'',
      new_token ''outdent''] fn = Inl StreamEnd"
  by (simp add: parser_defs)

end
